theory Spec2Isabelle
  imports Main "HOL-Library.Word"
begin

section \<open>The camera-data channel of sl.reflex (reflexEntry.cpp)\<close>

text \<open>
  \<^verbatim>\<open>ReflexCameraDataManager<T>\<close> keeps a vector of \<^verbatim>\<open>(frame id, payload)\<close> pairs, addressed by
  \<^verbatim>\<open>frameID % MAX_FRAMES_IN_FLIGHT\<close>, and the id of the frame written last. Frame ids are
  \<^verbatim>\<open>uint32_t\<close>, so they are 32-bit words here and \<^verbatim>\<open>lastFrame + 1\<close> wraps around.

  The header that defines \<^verbatim>\<open>MAX_FRAMES_IN_FLIGHT\<close> is not part of the sources at hand, so the
  capacity is a parameter \<open>N\<close> of every operation. It is a compile-time constant of the
  program, and it is positive (\<^verbatim>\<open>frameID % 0\<close> has no meaning in C++): the theorems assume
  \<open>0 < N\<close>.
\<close>

type_synonym uint32 = "32 word"

text \<open>The messages the channel and its two callers hand to \<^verbatim>\<open>SL_LOG_WARN\<close>.\<close>

datatype warning =
    AlreadySet uint32
  | OutOfOrder uint32 uint32
  | NotReadilyAvailable uint32
  | TimeOut uint32 nat
  | CouldNotGetCameraData uint32
  | CouldNotGetPredictedCameraData uint32

text \<open>
  What a call does besides computing its result, in the order it does it: a warning that is
  logged, a \<^verbatim>\<open>notify_one\<close> on the condition variable, a \<^verbatim>\<open>wait_for\<close> with its timeout in
  milliseconds.
\<close>

datatype event = Warn warning | NotifyOne | WaitFor nat

text \<open>\<^verbatim>\<open>std::vector::at\<close> throws \<^verbatim>\<open>std::out_of_range\<close> when the index is not below the size.\<close>

datatype exn = out_of_range

definition vector_at :: "'b list \<Rightarrow> nat \<Rightarrow> exn + 'b" where
  "vector_at xs i = (if i < length xs then Inr (xs ! i) else Inl out_of_range)"

record 'a ReflexCameraDataManager =
  cameraData :: "(uint32 \<times> 'a) list"
  lastFrame :: uint32

text \<open>
  The constructor resizes the vector to the capacity: every pair is value-initialised, its
  frame id 0 and its payload the default value \<open>dflt\<close> of the payload type.
\<close>

definition newReflexCameraDataManager :: "nat \<Rightarrow> 'a \<Rightarrow> 'a ReflexCameraDataManager" where
  "newReflexCameraDataManager N dflt = \<lparr>cameraData = replicate N (0, dflt), lastFrame = 0\<rparr>"

text \<open>
  \<^verbatim>\<open>insertCameraData\<close>, under the mutex: frame 0 returns at once; a frame id the slot already
  holds is warned about and returns; otherwise the slot is overwritten, with a warning first
  when the frame does not follow the last one written.
\<close>

definition insertCameraData ::
  "nat \<Rightarrow> uint32 \<Rightarrow> 'a \<Rightarrow> 'a ReflexCameraDataManager
    \<Rightarrow> exn + ('a ReflexCameraDataManager \<times> event list)" where
  "insertCameraData N frameID inCameraData m =
     (if frameID \<le> 0 then Inr (m, [])
      else
        (case vector_at (cameraData m) (unat frameID mod N) of
           Inl e \<Rightarrow> Inl e
         | Inr availableCameraData \<Rightarrow>
             if frameID = fst availableCameraData
             then Inr (m, [Warn (AlreadySet frameID)])
             else Inr (m\<lparr>cameraData :=
                            (cameraData m)[unat frameID mod N := (frameID, inCameraData)],
                         lastFrame := frameID\<rparr>,
                       (if lastFrame m + 1 \<noteq> frameID
                        then [Warn (OutOfOrder (lastFrame m) frameID)] else [])
                       @ [NotifyOne])))"

text \<open>
  \<^verbatim>\<open>getCameraData\<close> releases the mutex between its look-up and its wait, while it waits, and
  after the wait, and only other threads can make the awaited frame appear. The only
  operation they have is \<^verbatim>\<open>insertCameraData\<close>, so what they do while the mutex is free is a
  list of inserts, run in order.
\<close>

type_synonym 'a inserts = "(uint32 \<times> 'a) list"

fun producers ::
  "nat \<Rightarrow> 'a inserts \<Rightarrow> 'a ReflexCameraDataManager \<Rightarrow> exn + 'a ReflexCameraDataManager" where
  "producers N [] m = Inr m"
| "producers N ((frameID, d) # rest) m =
     (case insertCameraData N frameID d m of
        Inl e \<Rightarrow> Inl e
      | Inr (m', _) \<Rightarrow> producers N rest m')"

text \<open>The predicate of the wait: the lambda \<^verbatim>\<open>frameID == cameraData.at(frameID % N).first\<close>.\<close>

definition frame_arrived :: "nat \<Rightarrow> uint32 \<Rightarrow> 'a ReflexCameraDataManager \<Rightarrow> exn + bool" where
  "frame_arrived N frameID m =
     (case vector_at (cameraData m) (unat frameID mod N) of
        Inl e \<Rightarrow> Inl e
      | Inr p \<Rightarrow> Inr (frameID = fst p))"

text \<open>
  \<^verbatim>\<open>condition_variable::wait_for(lock, timeout, pred)\<close> is, by the C++ standard,
  \<^verbatim>\<open>while (!pred()) if (wait_until(lock, deadline) == timeout) return pred(); return true;\<close>.
  Its second argument here lists what the other threads insert before each wake-up that
  comes before the deadline; when the list is used up the deadline passes.
\<close>

fun wait_for ::
  "nat \<Rightarrow> uint32 \<Rightarrow> 'a inserts list \<Rightarrow> 'a ReflexCameraDataManager
    \<Rightarrow> exn + (bool \<times> 'a ReflexCameraDataManager)" where
  "wait_for N frameID [] m =
     (case frame_arrived N frameID m of
        Inl e \<Rightarrow> Inl e
      | Inr b \<Rightarrow> Inr (b, m))"
| "wait_for N frameID (b # bs) m =
     (case frame_arrived N frameID m of
        Inl e \<Rightarrow> Inl e
      | Inr True \<Rightarrow> Inr (True, m)
      | Inr False \<Rightarrow>
          (case producers N b m of
             Inl e \<Rightarrow> Inl e
           | Inr m' \<Rightarrow> wait_for N frameID bs m'))"

text \<open>
  The activity of the other threads during one call of \<^verbatim>\<open>getCameraData\<close>: for each turn of its
  loop, the inserts that arrive before the deadline of that turn's wait, and the inserts
  made between a successful wait and the look-up of the next turn. The empty list is a
  call during which no other thread touches the channel.
\<close>

type_synonym 'a activity = "('a inserts list \<times> 'a inserts) list"

definition arrivals :: "'a activity \<Rightarrow> 'a inserts list" where
  "arrivals env = (case env of [] \<Rightarrow> [] | (during, after) # _ \<Rightarrow> during)"

definition afterwards :: "'a activity \<Rightarrow> 'a inserts" where
  "afterwards env = (case env of [] \<Rightarrow> [] | (during, after) # _ \<Rightarrow> after)"

definition timeout_ms :: "uint32 \<Rightarrow> nat" where
  "timeout_ms frameID = (if frameID < 5 then 0 else 100)"

function getCameraData ::
  "nat \<Rightarrow> uint32 \<Rightarrow> 'a activity \<Rightarrow> 'a ReflexCameraDataManager
    \<Rightarrow> exn + ('a option \<times> 'a ReflexCameraDataManager \<times> event list)" where
  "getCameraData N frameID env m =
     (case vector_at (cameraData m) (unat frameID mod N) of
        Inl e \<Rightarrow> Inl e
      | Inr availableCameraData \<Rightarrow>
          if frameID = fst availableCameraData
          then Inr (Some (snd availableCameraData), m, [])
          else
            (case wait_for N frameID (arrivals env) m of
               Inl e \<Rightarrow> Inl e
             | Inr (arrived, m1) \<Rightarrow>
                 if \<not> arrived
                 then Inr (None, m1,
                        [Warn (NotReadilyAvailable frameID), WaitFor (timeout_ms frameID)]
                        @ (if timeout_ms frameID > 0
                           then [Warn (TimeOut frameID (timeout_ms frameID))] else []))
                 else
                   (case producers N (afterwards env) m1 of
                      Inl e \<Rightarrow> Inl e
                    | Inr m2 \<Rightarrow>
                        (case getCameraData N frameID (tl env) m2 of
                           Inl e \<Rightarrow> Inl e
                         | Inr (r, m3, evs) \<Rightarrow>
                             Inr (r, m3,
                               [Warn (NotReadilyAvailable frameID),
                                WaitFor (timeout_ms frameID)] @ evs)))))"
  by pat_completeness auto

text \<open>
  The loop comes back to its look-up only after a wait that saw the frame arrive. With no
  activity left (\<open>env = []\<close>) nothing changes between the failed look-up and the wait, so
  the wait cannot succeed: every turn of the loop consumes an entry of \<open>env\<close>.
\<close>

termination getCameraData
proof (relation "measure (\<lambda>(N, frameID, env, m). length env)")
  show "wf (measure (\<lambda>(N, frameID, env, m). length (env :: 'a activity)))" by simp
next
  fix N :: nat and frameID :: uint32 and env :: "'a activity"
    and m :: "'a ReflexCameraDataManager" and p x2 arrived m1 m2
  assume at: "vector_at (cameraData m) (unat frameID mod N) = Inr p"
    and ne: "frameID \<noteq> fst p"
    and w: "wait_for N frameID (arrivals env) m = Inr x2"
    and x2: "(arrived, m1) = x2"
    and arr: "\<not> \<not> arrived"
  have "env \<noteq> []"
  proof
    assume "env = []"
    with at ne w x2 have "arrived = False"
      by (auto simp: arrivals_def frame_arrived_def)
    with arr show False by simp
  qed
  then show "((N, frameID, tl env, m2), N, frameID, env, m)
      \<in> measure (\<lambda>(N, frameID, env, m). length env)"
    by (cases env) simp_all
qed

declare getCameraData.simps [simp del]

subsection \<open>The two readers of the channel\<close>

text \<open>
  \<^verbatim>\<open>sl::Result\<close> is declared in a header that is not among the sources; these are the two
  values the readers return. Of \<^verbatim>\<open>LatencyContext\<close> only the fields the readers touch are
  kept. The output structure is passed by reference: the model takes its old value and
  returns its new one.
\<close>

datatype Result = eOk | eErrorInvalidState

record ('a, 'b) LatencyContext =
  simCameraData :: "'a ReflexCameraDataManager"
  predCameraData :: "'b ReflexCameraDataManager"
  predictCamera :: bool

definition slReflexGetCameraDataInternal ::
  "nat \<Rightarrow> 'a activity \<Rightarrow> uint32 \<Rightarrow> 'a \<Rightarrow> ('a, 'b) LatencyContext
    \<Rightarrow> exn + (Result \<times> 'a \<times> ('a, 'b) LatencyContext \<times> event list)" where
  "slReflexGetCameraDataInternal N env frame outCameraData ctx =
     (case getCameraData N frame env (simCameraData ctx) of
        Inl e \<Rightarrow> Inl e
      | Inr (found, m, evs) \<Rightarrow>
          (case found of
             None \<Rightarrow>
               Inr (eErrorInvalidState, outCameraData, ctx\<lparr>simCameraData := m\<rparr>,
                    evs @ [Warn (CouldNotGetCameraData frame)])
           | Some v \<Rightarrow> Inr (eOk, v, ctx\<lparr>simCameraData := m\<rparr>, evs)))"

definition slReflexGetPredictedCameraData ::
  "nat \<Rightarrow> 'b activity \<Rightarrow> uint32 \<Rightarrow> 'b \<Rightarrow> ('a, 'b) LatencyContext
    \<Rightarrow> exn + (Result \<times> 'b \<times> ('a, 'b) LatencyContext \<times> event list)" where
  "slReflexGetPredictedCameraData N env frame outCameraData ctx0 =
     (let ctx = ctx0\<lparr>predictCamera := True\<rparr> in
      case getCameraData N frame env (predCameraData ctx) of
        Inl e \<Rightarrow> Inl e
      | Inr (found, m, evs) \<Rightarrow>
          (case found of
             None \<Rightarrow>
               Inr (eErrorInvalidState, outCameraData, ctx\<lparr>predCameraData := m\<rparr>,
                    evs @ [Warn (CouldNotGetPredictedCameraData frame)])
           | Some v \<Rightarrow> Inr (eOk, v, ctx\<lparr>predCameraData := m\<rparr>, evs)))"

section \<open>The hooked entry points of the Vulkan interposer (wrapper.cpp)\<close>

text \<open>
  A hooked entry point fetches the before-hooks registered for its id, calls each with the
  arguments of the call and a \<^verbatim>\<open>bool& skip\<close>, returns at the first result that is not
  \<^verbatim>\<open>VK_SUCCESS\<close>, calls the driver unless \<open>skip\<close> is set, and then, where the entry point has
  after-hooks, runs them the same way.

  Everything a hook or the driver can read and change (the arguments behind their
  pointers, the state of the plugins, the device) is one value of a type \<open>'w\<close>. A
  before-hook also receives the current \<open>skip\<close> and hands back the value it leaves in it.
  The hook lists come from the plugin manager, which is not among the sources: they are
  arguments, as is the driver's function from the dispatch table.

  The last component of every result is not in the C++: it records which callees ran, in
  order, each hook by its position in its list.
\<close>

type_synonym VkResult = int

definition VK_SUCCESS :: VkResult where
  "VK_SUCCESS = 0"

type_synonym Feature = uint32

type_synonym 'w before_hook = "bool \<Rightarrow> 'w \<Rightarrow> VkResult \<times> bool \<times> 'w"
type_synonym 'w void_before_hook = "bool \<Rightarrow> 'w \<Rightarrow> bool \<times> 'w"
type_synonym 'w after_hook = "'w \<Rightarrow> VkResult \<times> 'w"
type_synonym 'w native = "'w \<Rightarrow> VkResult \<times> 'w"
type_synonym 'w void_native = "'w \<Rightarrow> 'w"

datatype call = BeforeHook nat | NativeCall | AfterHook nat

text \<open>
  The loop \<^verbatim>\<open>for (auto [hook, feature] : hooks) { result = hook(..., skip); if (result !=
  VK_SUCCESS) return result; }\<close>. \<open>Inl\<close> is the \<^verbatim>\<open>return\<close> inside the loop, \<open>Inr\<close> the
  state in which the loop is left at its end.
\<close>

fun before_hooks_loop ::
  "('w before_hook \<times> Feature) list \<Rightarrow> nat \<Rightarrow> bool \<Rightarrow> VkResult \<Rightarrow> 'w \<Rightarrow> call list
    \<Rightarrow> (VkResult \<times> 'w \<times> call list) + (bool \<times> VkResult \<times> 'w \<times> call list)" where
  "before_hooks_loop [] i skip result w tr = Inr (skip, result, w, tr)"
| "before_hooks_loop ((hook, feature) # hooks) i skip result w tr =
     (case hook skip w of
        (result', skip', w') \<Rightarrow>
          if result' \<noteq> VK_SUCCESS then Inl (result', w', tr @ [BeforeHook i])
          else before_hooks_loop hooks (Suc i) skip' result' w' (tr @ [BeforeHook i]))"

fun after_hooks_loop ::
  "('w after_hook \<times> Feature) list \<Rightarrow> nat \<Rightarrow> VkResult \<Rightarrow> 'w \<Rightarrow> call list
    \<Rightarrow> (VkResult \<times> 'w \<times> call list) + (VkResult \<times> 'w \<times> call list)" where
  "after_hooks_loop [] i result w tr = Inr (result, w, tr)"
| "after_hooks_loop ((hook, feature) # hooks) i result w tr =
     (case hook w of
        (result', w') \<Rightarrow>
          if result' \<noteq> VK_SUCCESS then Inl (result', w', tr @ [AfterHook i])
          else after_hooks_loop hooks (Suc i) result' w' (tr @ [AfterHook i]))"

text \<open>The loop of the two \<^verbatim>\<open>void\<close> entry points, whose hooks return nothing.\<close>

fun void_before_hooks_loop ::
  "('w void_before_hook \<times> Feature) list \<Rightarrow> nat \<Rightarrow> bool \<Rightarrow> 'w \<Rightarrow> call list
    \<Rightarrow> bool \<times> 'w \<times> call list" where
  "void_before_hooks_loop [] i skip w tr = (skip, w, tr)"
| "void_before_hooks_loop ((hook, feature) # hooks) i skip w tr =
     (case hook skip w of
        (skip', w') \<Rightarrow> void_before_hooks_loop hooks (Suc i) skip' w' (tr @ [BeforeHook i]))"

text \<open>The part \<^verbatim>\<open>if (!skip) { result = s_ddt.F(...); }\<close> that all of them share.\<close>

definition native_unless_skipped ::
  "bool \<Rightarrow> 'w native \<Rightarrow> VkResult \<Rightarrow> 'w \<Rightarrow> call list \<Rightarrow> VkResult \<times> 'w \<times> call list" where
  "native_unless_skipped skip F result w tr =
     (if \<not> skip then (case F w of (result', w') \<Rightarrow> (result', w', tr @ [NativeCall]))
      else (result, w, tr))"

text \<open>Entry points with before-hooks only.\<close>

definition vkDeviceWaitIdle ::
  "('w before_hook \<times> Feature) list \<Rightarrow> 'w native \<Rightarrow> 'w \<Rightarrow> VkResult \<times> 'w \<times> call list" where
  "vkDeviceWaitIdle hooks DeviceWaitIdle w =
     (case before_hooks_loop hooks 0 False VK_SUCCESS w [] of
        Inl ret \<Rightarrow> ret
      | Inr (skip, result, w1, tr) \<Rightarrow> native_unless_skipped skip DeviceWaitIdle result w1 tr)"

definition vkGetSwapchainImagesKHR ::
  "('w before_hook \<times> Feature) list \<Rightarrow> 'w native \<Rightarrow> 'w \<Rightarrow> VkResult \<times> 'w \<times> call list" where
  "vkGetSwapchainImagesKHR hooks GetSwapchainImagesKHR w =
     (case before_hooks_loop hooks 0 False VK_SUCCESS w [] of
        Inl ret \<Rightarrow> ret
      | Inr (skip, result, w1, tr) \<Rightarrow>
          native_unless_skipped skip GetSwapchainImagesKHR result w1 tr)"

definition vkAcquireNextImageKHR ::
  "('w before_hook \<times> Feature) list \<Rightarrow> 'w native \<Rightarrow> 'w \<Rightarrow> VkResult \<times> 'w \<times> call list" where
  "vkAcquireNextImageKHR hooks AcquireNextImageKHR w =
     (case before_hooks_loop hooks 0 False VK_SUCCESS w [] of
        Inl ret \<Rightarrow> ret
      | Inr (skip, result, w1, tr) \<Rightarrow>
          native_unless_skipped skip AcquireNextImageKHR result w1 tr)"

definition vkAcquireNextImage2KHR ::
  "('w before_hook \<times> Feature) list \<Rightarrow> 'w native \<Rightarrow> 'w \<Rightarrow> VkResult \<times> 'w \<times> call list" where
  "vkAcquireNextImage2KHR hooks AcquireNextImage2KHR w =
     (case before_hooks_loop hooks 0 False VK_SUCCESS w [] of
        Inl ret \<Rightarrow> ret
      | Inr (skip, result, w1, tr) \<Rightarrow>
          native_unless_skipped skip AcquireNextImage2KHR result w1 tr)"

text \<open>Entry points with before-hooks and after-hooks.\<close>

definition vkCreateSwapchainKHR ::
  "('w before_hook \<times> Feature) list \<Rightarrow> 'w native \<Rightarrow> ('w after_hook \<times> Feature) list \<Rightarrow> 'w
    \<Rightarrow> VkResult \<times> 'w \<times> call list" where
  "vkCreateSwapchainKHR beforeHooks CreateSwapchainKHR afterHooks w =
     (case before_hooks_loop beforeHooks 0 False VK_SUCCESS w [] of
        Inl ret \<Rightarrow> ret
      | Inr (skip, result, w1, tr) \<Rightarrow>
          (case native_unless_skipped skip CreateSwapchainKHR result w1 tr of
             (result2, w2, tr2) \<Rightarrow>
               (case after_hooks_loop afterHooks 0 result2 w2 tr2 of
                  Inl ret \<Rightarrow> ret
                | Inr ret \<Rightarrow> ret)))"

definition vkQueuePresentKHR ::
  "('w before_hook \<times> Feature) list \<Rightarrow> 'w native \<Rightarrow> ('w after_hook \<times> Feature) list \<Rightarrow> 'w
    \<Rightarrow> VkResult \<times> 'w \<times> call list" where
  "vkQueuePresentKHR beforeHooks QueuePresentKHR afterHooks w =
     (case before_hooks_loop beforeHooks 0 False VK_SUCCESS w [] of
        Inl ret \<Rightarrow> ret
      | Inr (skip, result, w1, tr) \<Rightarrow>
          (case native_unless_skipped skip QueuePresentKHR result w1 tr of
             (result2, w2, tr2) \<Rightarrow>
               (case after_hooks_loop afterHooks 0 result2 w2 tr2 of
                  Inl ret \<Rightarrow> ret
                | Inr ret \<Rightarrow> ret)))"

definition vkCreateWin32SurfaceKHR ::
  "('w before_hook \<times> Feature) list \<Rightarrow> 'w native \<Rightarrow> ('w after_hook \<times> Feature) list \<Rightarrow> 'w
    \<Rightarrow> VkResult \<times> 'w \<times> call list" where
  "vkCreateWin32SurfaceKHR beforeHooks CreateWin32SurfaceKHR afterHooks w =
     (case before_hooks_loop beforeHooks 0 False VK_SUCCESS w [] of
        Inl ret \<Rightarrow> ret
      | Inr (skip, result, w1, tr) \<Rightarrow>
          (case native_unless_skipped skip CreateWin32SurfaceKHR result w1 tr of
             (result2, w2, tr2) \<Rightarrow>
               (case after_hooks_loop afterHooks 0 result2 w2 tr2 of
                  Inl ret \<Rightarrow> ret
                | Inr ret \<Rightarrow> ret)))"

text \<open>The two \<^verbatim>\<open>void\<close> entry points: no result, no early return, no after-hooks.\<close>

definition vkDestroySwapchainKHR ::
  "('w void_before_hook \<times> Feature) list \<Rightarrow> 'w void_native \<Rightarrow> 'w \<Rightarrow> 'w \<times> call list" where
  "vkDestroySwapchainKHR hooks DestroySwapchainKHR w =
     (case void_before_hooks_loop hooks 0 False w [] of
        (skip, w1, tr) \<Rightarrow>
          if \<not> skip then (DestroySwapchainKHR w1, tr @ [NativeCall]) else (w1, tr))"

definition vkDestroySurfaceKHR ::
  "('w void_before_hook \<times> Feature) list \<Rightarrow> 'w void_native \<Rightarrow> 'w \<Rightarrow> 'w \<times> call list" where
  "vkDestroySurfaceKHR hooks DestroySurfaceKHR w =
     (case void_before_hooks_loop hooks 0 False w [] of
        (skip, w1, tr) \<Rightarrow>
          if \<not> skip then (DestroySurfaceKHR w1, tr @ [NativeCall]) else (w1, tr))"

section \<open>Well-formed channels and concrete inputs\<close>

text \<open>
  The constructor gives the vector \<open>N\<close> slots and no operation changes its size, so every
  channel the program can hold is well formed in this sense, and on a well-formed channel
  \<^verbatim>\<open>at\<close> never throws.
\<close>

definition wellformed :: "nat \<Rightarrow> 'a ReflexCameraDataManager \<Rightarrow> bool" where
  "wellformed N m = (0 < N \<and> length (cameraData m) = N)"

text \<open>
  What every call of \<^verbatim>\<open>getCameraData\<close> guarantees about its result \<open>r\<close>, the channel \<open>m\<close> it
  leaves and the events \<open>evs\<close> it produced.
\<close>

definition get_post ::
  "nat \<Rightarrow> uint32 \<Rightarrow> 'a option \<Rightarrow> 'a ReflexCameraDataManager \<Rightarrow> event list \<Rightarrow> bool" where
  "get_post N frameID r m evs =
     (wellformed N m
      \<and> set evs \<subseteq> {Warn (NotReadilyAvailable frameID), WaitFor (timeout_ms frameID),
                    Warn (TimeOut frameID (timeout_ms frameID))}
      \<and> (0 < timeout_ms frameID
           \<or> Warn (TimeOut frameID (timeout_ms frameID)) \<notin> set evs)
      \<and> (r = None \<longrightarrow> Warn (NotReadilyAvailable frameID) \<in> set evs
            \<and> WaitFor (timeout_ms frameID) \<in> set evs
            \<and> (0 < timeout_ms frameID \<longrightarrow>
                  last evs = Warn (TimeOut frameID (timeout_ms frameID))))
      \<and> (\<forall>v. r = Some v \<longrightarrow> cameraData m ! (unat frameID mod N) = (frameID, v)))"

text \<open>
  Concrete hooks and driver calls over a world that is one number, each leaving its own
  mark on it: a before-hook that sets \<open>skip\<close>, one that leaves it as it found it, one that
  clears it, one that fails with \<^verbatim>\<open>VK_ERROR_DEVICE_LOST\<close> (\<open>-4\<close>); a driver call that
  succeeds; an after-hook that succeeds and one that fails.
\<close>

definition hook_sets_skip :: "nat before_hook" where
  "hook_sets_skip skip w = (VK_SUCCESS, True, w + 1)"

definition hook_keeps_skip :: "nat before_hook" where
  "hook_keeps_skip skip w = (VK_SUCCESS, skip, w + 10)"

definition hook_clears_skip :: "nat before_hook" where
  "hook_clears_skip skip w = (VK_SUCCESS, False, w + 10)"

definition hook_fails :: "nat before_hook" where
  "hook_fails skip w = (- 4, skip, w + 10)"

definition native_ok :: "nat native" where
  "native_ok w = (VK_SUCCESS, w + 100)"

definition after_ok :: "nat after_hook" where
  "after_ok w = (VK_SUCCESS, w + 1000)"

definition after_fails :: "nat after_hook" where
  "after_fails w = (- 4, w + 1000)"

definition void_hook_sets_skip :: "nat void_before_hook" where
  "void_hook_sets_skip skip w = (True, w + 1)"

definition void_native_ok :: "nat void_native" where
  "void_native_ok w = w + 100"

text \<open>
  The vocabulary in which the theorems say which hooks an entry point calls. For a list
  of before-hooks started on a \<open>skip\<close> flag and a world, \<open>before_input\<close> is the flag and the
  world that hook \<open>j\<close> is handed when the \<open>j\<close> hooks before it have run, and
  \<open>before_result\<close> is the code that hook returns there; \<open>before_input\<close> at the length of
  the list is what the last hook leaves. \<open>after_input\<close> and \<open>after_result\<close> are the same for
  a list of after-hooks, \<open>void_input\<close> for the hooks of the \<^verbatim>\<open>void\<close> entry points. None of
  them knows about an early return: whether hook \<open>j\<close> is reached at all is what the
  theorems state.
\<close>

definition before_step :: "bool \<times> 'w \<Rightarrow> 'w before_hook \<times> Feature \<Rightarrow> bool \<times> 'w" where
  "before_step sw hp = snd (fst hp (fst sw) (snd sw))"

definition before_input ::
  "bool \<times> 'w \<Rightarrow> ('w before_hook \<times> Feature) list \<Rightarrow> nat \<Rightarrow> bool \<times> 'w" where
  "before_input sw hooks j = foldl before_step sw (take j hooks)"

definition before_result ::
  "bool \<times> 'w \<Rightarrow> ('w before_hook \<times> Feature) list \<Rightarrow> nat \<Rightarrow> VkResult" where
  "before_result sw hooks j =
     fst (fst (hooks ! j) (fst (before_input sw hooks j)) (snd (before_input sw hooks j)))"

definition after_step :: "'w \<Rightarrow> 'w after_hook \<times> Feature \<Rightarrow> 'w" where
  "after_step w hp = snd (fst hp w)"

definition after_input :: "'w \<Rightarrow> ('w after_hook \<times> Feature) list \<Rightarrow> nat \<Rightarrow> 'w" where
  "after_input w hooks j = foldl after_step w (take j hooks)"

definition after_result :: "'w \<Rightarrow> ('w after_hook \<times> Feature) list \<Rightarrow> nat \<Rightarrow> VkResult" where
  "after_result w hooks j = fst (fst (hooks ! j) (after_input w hooks j))"

definition void_step :: "bool \<times> 'w \<Rightarrow> 'w void_before_hook \<times> Feature \<Rightarrow> bool \<times> 'w" where
  "void_step sw hp = fst hp (fst sw) (snd sw)"

definition void_input ::
  "bool \<times> 'w \<Rightarrow> ('w void_before_hook \<times> Feature) list \<Rightarrow> nat \<Rightarrow> bool \<times> 'w" where
  "void_input sw hooks j = foldl void_step sw (take j hooks)"

section \<open>Properties of the camera-data channel\<close>

subsection \<open>Supporting lemmas\<close>

lemma vector_at_slot:
  "wellformed N m \<Longrightarrow>
     vector_at (cameraData m) (unat frameID mod N) = Inr (cameraData m ! (unat frameID mod N))"
  by (simp add: wellformed_def vector_at_def)

lemma wellformed_new: "0 < N \<Longrightarrow> wellformed N (newReflexCameraDataManager N dflt)"
  by (simp add: wellformed_def newReflexCameraDataManager_def)

lemma insertCameraData_wellformed:
  "wellformed N m \<Longrightarrow>
     insertCameraData N frameID d m =
       (if frameID = 0 then Inr (m, [])
        else if frameID = fst (cameraData m ! (unat frameID mod N))
        then Inr (m, [Warn (AlreadySet frameID)])
        else Inr (m\<lparr>cameraData := (cameraData m)[unat frameID mod N := (frameID, d)],
                    lastFrame := frameID\<rparr>,
                  (if lastFrame m + 1 \<noteq> frameID
                   then [Warn (OutOfOrder (lastFrame m) frameID)] else []) @ [NotifyOne]))"
  by (simp add: insertCameraData_def vector_at_slot)

lemma insertCameraData_preserves:
  "wellformed N m \<Longrightarrow> insertCameraData N frameID d m = Inr (m', evs) \<Longrightarrow> wellformed N m'"
  by (auto simp: insertCameraData_wellformed wellformed_def split: if_splits)

lemma insertCameraData_total:
  "wellformed N m \<Longrightarrow> \<exists>m' evs. insertCameraData N frameID d m = Inr (m', evs) \<and> wellformed N m'"
  by (auto simp: insertCameraData_wellformed wellformed_def)

lemma producers_total:
  "wellformed N m \<Longrightarrow> \<exists>m'. producers N b m = Inr m' \<and> wellformed N m'"
proof (induction b arbitrary: m)
  case Nil
  then show ?case by simp
next
  case (Cons x b)
  obtain frameID d where x: "x = (frameID, d)" by (cases x)
  from insertCameraData_total [OF Cons.prems, of frameID d]
  obtain m1 evs where m1: "insertCameraData N frameID d m = Inr (m1, evs)" "wellformed N m1"
    by blast
  from Cons.IH [OF m1(2)] show ?case by (simp add: x m1(1))
qed

lemma frame_arrived_wellformed:
  "wellformed N m \<Longrightarrow>
     frame_arrived N frameID m = Inr (frameID = fst (cameraData m ! (unat frameID mod N)))"
  by (simp add: frame_arrived_def vector_at_slot)

lemma wait_for_total:
  "wellformed N m \<Longrightarrow>
     \<exists>m'. wait_for N frameID bs m =
             Inr (frameID = fst (cameraData m' ! (unat frameID mod N)), m') \<and> wellformed N m'"
proof (induction bs arbitrary: m)
  case Nil
  then show ?case by (simp add: frame_arrived_wellformed)
next
  case (Cons b bs)
  show ?case
  proof (cases "frameID = fst (cameraData m ! (unat frameID mod N))")
    case True
    with Cons.prems show ?thesis
      by (auto simp add: frame_arrived_wellformed intro!: exI [of _ m])
  next
    case False
    from producers_total [OF Cons.prems, of b]
    obtain m1 where m1: "producers N b m = Inr m1" "wellformed N m1" by blast
    from Cons.IH [OF m1(2)] False Cons.prems m1(1) show ?thesis
      by (simp add: frame_arrived_wellformed)
  qed
qed

lemma wait_for_quiet:
  "wellformed N m \<Longrightarrow>
     wait_for N frameID [] m = Inr (frameID = fst (cameraData m ! (unat frameID mod N)), m)"
  by (simp add: frame_arrived_wellformed)

lemma getCameraData_present:
  "wellformed N m \<Longrightarrow> fst (cameraData m ! (unat frameID mod N)) = frameID \<Longrightarrow>
     getCameraData N frameID env m = Inr (Some (snd (cameraData m ! (unat frameID mod N))), m, [])"
  by (subst getCameraData.simps) (simp add: vector_at_slot)

lemma getCameraData_quiet_absent:
  "wellformed N m \<Longrightarrow> fst (cameraData m ! (unat frameID mod N)) \<noteq> frameID \<Longrightarrow>
     getCameraData N frameID [] m =
       Inr (None, m,
            [Warn (NotReadilyAvailable frameID), WaitFor (timeout_ms frameID)]
            @ (if timeout_ms frameID > 0
               then [Warn (TimeOut frameID (timeout_ms frameID))] else []))"
  by (subst getCameraData.simps)
     (auto simp add: vector_at_slot arrivals_def frame_arrived_wellformed)

lemma getCameraData_step:
  assumes wf: "wellformed N m"
    and absent: "fst (cameraData m ! (unat frameID mod N)) \<noteq> frameID"
    and w: "wait_for N frameID during m = Inr (True, m1)"
    and p: "producers N after m1 = Inr m2"
    and g: "getCameraData N frameID rest m2 = Inr (r, m3, evs)"
  shows "getCameraData N frameID ((during, after) # rest) m =
           Inr (r, m3, [Warn (NotReadilyAvailable frameID), WaitFor (timeout_ms frameID)] @ evs)"
  using absent
  by (subst getCameraData.simps)
     (auto simp add: vector_at_slot [OF wf] arrivals_def afterwards_def w p g)

lemma getCameraData_timed_out:
  assumes wf: "wellformed N m"
    and absent: "fst (cameraData m ! (unat frameID mod N)) \<noteq> frameID"
    and w: "wait_for N frameID during m = Inr (False, m1)"
  shows "getCameraData N frameID ((during, after) # rest) m =
           Inr (None, m1,
             [Warn (NotReadilyAvailable frameID), WaitFor (timeout_ms frameID)]
             @ (if timeout_ms frameID > 0
                then [Warn (TimeOut frameID (timeout_ms frameID))] else []))"
  using absent
  by (subst getCameraData.simps)
     (auto simp add: vector_at_slot [OF wf] arrivals_def w)

lemma get_post_present:
  "wellformed N m \<Longrightarrow> fst (cameraData m ! (unat frameID mod N)) = frameID \<Longrightarrow>
     get_post N frameID (Some (snd (cameraData m ! (unat frameID mod N)))) m []"
  by (simp add: get_post_def prod_eq_iff)

lemma get_post_timed_out:
  "wellformed N m \<Longrightarrow>
     get_post N frameID None m
       ([Warn (NotReadilyAvailable frameID), WaitFor (timeout_ms frameID)]
        @ (if timeout_ms frameID > 0
           then [Warn (TimeOut frameID (timeout_ms frameID))] else []))"
  by (auto simp add: get_post_def)

lemma get_post_step:
  assumes "get_post N frameID r m evs"
  shows "get_post N frameID r m
           ([Warn (NotReadilyAvailable frameID), WaitFor (timeout_ms frameID)] @ evs)"
proof -
  from assms have ne: "r = None \<longrightarrow> evs \<noteq> []"
    unfolding get_post_def by auto
  show ?thesis
  proof (cases r)
    case None
    with ne have "evs \<noteq> []" by simp
    with assms None show ?thesis
      unfolding get_post_def by simp
  next
    case (Some v)
    with assms show ?thesis
      unfolding get_post_def by simp
  qed
qed

lemma getCameraData_total:
  "wellformed N m \<Longrightarrow>
     \<exists>r m' evs. getCameraData N frameID env m = Inr (r, m', evs) \<and> get_post N frameID r m' evs"
proof (induction env arbitrary: m)
  case Nil
  show ?case
  proof (cases "fst (cameraData m ! (unat frameID mod N)) = frameID")
    case True
    from getCameraData_present [OF Nil True] get_post_present [OF Nil True]
    show ?thesis by blast
  next
    case False
    from getCameraData_quiet_absent [OF Nil False] get_post_timed_out [OF Nil]
    show ?thesis by blast
  qed
next
  case (Cons e env)
  obtain during after where e: "e = (during, after)" by (cases e)
  show ?case
  proof (cases "fst (cameraData m ! (unat frameID mod N)) = frameID")
    case True
    from getCameraData_present [OF Cons.prems True] get_post_present [OF Cons.prems True]
    show ?thesis by blast
  next
    case False
    from wait_for_total [OF Cons.prems, of frameID during]
    obtain m1 where m1:
      "wait_for N frameID during m =
         Inr (frameID = fst (cameraData m1 ! (unat frameID mod N)), m1)"
      "wellformed N m1" by blast
    show ?thesis
    proof (cases "frameID = fst (cameraData m1 ! (unat frameID mod N))")
      case arrived: False
      with m1(1) have "wait_for N frameID during m = Inr (False, m1)" by simp
      from getCameraData_timed_out [OF Cons.prems False this, of after env]
        get_post_timed_out [OF m1(2)]
      show ?thesis unfolding e by blast
    next
      case arrived: True
      with m1(1) have w: "wait_for N frameID during m = Inr (True, m1)" by simp
      from producers_total [OF m1(2), of after]
      obtain m2 where m2: "producers N after m1 = Inr m2" "wellformed N m2" by blast
      from Cons.IH [OF m2(2)]
      obtain r m3 evs where g: "getCameraData N frameID env m2 = Inr (r, m3, evs)"
        and post: "get_post N frameID r m3 evs"
        by blast
      from getCameraData_step [OF Cons.prems False w m2(1) g] get_post_step [OF post]
      show ?thesis unfolding e by blast
    qed
  qed
qed

lemma new_manager_4:
  "newReflexCameraDataManager 4 d
     = \<lparr>cameraData = [(0, d), (0, d), (0, d), (0, d)], lastFrame = 0\<rparr>"
  by (simp add: newReflexCameraDataManager_def numeral_eq_Suc)

text \<open>
  A frame that another thread inserts while the reader waits is returned by the reader
  after a single wait, without a time-out warning.
\<close>

lemma getCameraData_woken_by_insert:
  assumes wf: "wellformed N m"
    and absent: "fst (cameraData m ! (unat frameID mod N)) \<noteq> frameID"
    and nz: "frameID \<noteq> 0"
    and m': "m' = m\<lparr>cameraData := (cameraData m)[unat frameID mod N := (frameID, v)],
                    lastFrame := frameID\<rparr>"
  shows "getCameraData N frameID [([[(frameID, v)]], [])] m =
           Inr (Some v, m', [Warn (NotReadilyAvailable frameID), WaitFor (timeout_ms frameID)])"
proof -
  have lt: "unat frameID mod N < length (cameraData m)"
    using wf by (simp add: wellformed_def)
  obtain evs where ins: "insertCameraData N frameID v m = Inr (m', evs)"
    unfolding insertCameraData_wellformed [OF wf] using absent nz m' by auto
  have wf': "wellformed N m'" by (rule insertCameraData_preserves [OF wf ins])
  have slot: "cameraData m' ! (unat frameID mod N) = (frameID, v)"
    using lt m' by simp
  have w: "wait_for N frameID [[(frameID, v)]] m = Inr (True, m')"
    using absent slot by (simp add: frame_arrived_wellformed [OF wf] ins
        frame_arrived_wellformed [OF wf'])
  have p: "producers N [] m' = Inr m'" by simp
  from slot have "fst (cameraData m' ! (unat frameID mod N)) = frameID" by simp
  from getCameraData_present [OF wf' this, of "[]"] slot
  have g: "getCameraData N frameID [] m' = Inr (Some v, m', [])" by simp
  from getCameraData_step [OF wf absent w p g] show ?thesis by simp
qed

subsection \<open>The claims about the channel\<close>

text \<open>
  Claim C1, amended. A read with no producer running returns a value exactly when the slot
  \<open>f mod N\<close> holds frame index \<open>f\<close>, and then it is the stored value, at once and with no
  event. After \<open>insert(f1, v1)\<close> and then \<open>insert(f2, v2)\<close>, for \<open>f1 \<noteq> f2\<close> that share a slot
  and \<open>f2 \<noteq> 0\<close>, the slot holds \<open>f2\<close> and \<open>get(f1)\<close> returns empty. The condition \<open>f2 \<noteq> 0\<close>
  is needed: an insert for frame 0 stores nothing, so it supersedes nothing.
\<close>

theorem read_exact_match_and_supersede:
  assumes wf: "wellformed N m"
    and i1: "insertCameraData N f1 v1 m = Inr (m1, evs1)"
    and i2: "insertCameraData N f2 v2 m1 = Inr (m2, evs2)"
    and ne: "f1 \<noteq> f2"
    and cong: "unat f1 mod N = unat f2 mod N"
    and nz: "f2 \<noteq> 0"
  shows "((getCameraData N f [] m = Inr (Some v, m', evs))
            = (cameraData m ! (unat f mod N) = (f, v) \<and> m' = m \<and> evs = []))
       \<and> fst (cameraData m2 ! (unat f1 mod N)) = f2
       \<and> (\<exists>evs'. getCameraData N f1 [] m2 = Inr (None, m2, evs'))"
proof -
  have part1: "(getCameraData N f [] m = Inr (Some v, m', evs))
            = (cameraData m ! (unat f mod N) = (f, v) \<and> m' = m \<and> evs = [])"
  proof (cases "fst (cameraData m ! (unat f mod N)) = f")
    case True
    from getCameraData_present [OF wf True] True show ?thesis
      by (auto simp: prod_eq_iff)
  next
    case False
    from getCameraData_quiet_absent [OF wf False] False show ?thesis
      by (auto simp: prod_eq_iff)
  qed
  have wf1: "wellformed N m1" by (rule insertCameraData_preserves [OF wf i1])
  have wf2: "wellformed N m2" by (rule insertCameraData_preserves [OF wf1 i2])
  have lt: "unat f2 mod N < N" using wf by (simp add: wellformed_def)
  have len1: "length (cameraData m1) = N" using wf1 by (simp add: wellformed_def)
  from i2 nz have slot: "fst (cameraData m2 ! (unat f2 mod N)) = f2"
    unfolding insertCameraData_wellformed [OF wf1]
    using lt len1 by (auto split: if_splits)
  with cong have slot': "fst (cameraData m2 ! (unat f1 mod N)) = f2" by simp
  with ne have "fst (cameraData m2 ! (unat f1 mod N)) \<noteq> f1" by simp
  from getCameraData_quiet_absent [OF wf2 this]
  have "\<exists>evs'. getCameraData N f1 [] m2 = Inr (None, m2, evs')" by blast
  with part1 slot' show ?thesis by blast
qed

text \<open>
  The theorem at capacity 4 on a fresh channel, frames 1 and 5 sharing slot 1; its first
  part at frame 0.
\<close>

theorem read_exact_match_and_supersede_witness:
  "wellformed 4 (newReflexCameraDataManager 4 (0::nat))
   \<and> insertCameraData 4 1 10 (newReflexCameraDataManager 4 (0::nat))
       = Inr (\<lparr>cameraData = [(0, 0), (1, 10), (0, 0), (0, 0)], lastFrame = 1\<rparr>, [NotifyOne])
   \<and> insertCameraData 4 5 50 \<lparr>cameraData = [(0, 0), (1, 10::nat), (0, 0), (0, 0)], lastFrame = 1\<rparr>
       = Inr (\<lparr>cameraData = [(0, 0), (5, 50), (0, 0), (0, 0)], lastFrame = 5\<rparr>,
              [Warn (OutOfOrder 1 5), NotifyOne])
   \<and> (1::uint32) \<noteq> 5 \<and> unat (1::uint32) mod 4 = unat (5::uint32) mod 4 \<and> (5::uint32) \<noteq> 0
   \<and> getCameraData 4 0 [] (newReflexCameraDataManager 4 (0::nat))
       = Inr (Some 0, newReflexCameraDataManager 4 0, [])
   \<and> fst (cameraData \<lparr>cameraData = [(0, 0), (5, 50::nat), (0, 0), (0, 0)], lastFrame = 5\<rparr>
            ! (unat (1::uint32) mod 4)) = 5
   \<and> (\<exists>evs'. getCameraData 4 1 []
                 \<lparr>cameraData = [(0, 0), (5, 50::nat), (0, 0), (0, 0)], lastFrame = 5\<rparr>
               = Inr (None, \<lparr>cameraData = [(0, 0), (5, 50), (0, 0), (0, 0)], lastFrame = 5\<rparr>,
                      evs'))"
proof -
  let ?m = "newReflexCameraDataManager 4 (0::nat)"
  let ?m1 = "\<lparr>cameraData = [(0, 0), (1, 10::nat), (0, 0), (0, 0)], lastFrame = 1::uint32\<rparr>"
  let ?m2 = "\<lparr>cameraData = [(0, 0), (5, 50::nat), (0, 0), (0, 0)], lastFrame = 5::uint32\<rparr>"
  have wf: "wellformed 4 ?m"
    by (simp add: wellformed_def newReflexCameraDataManager_def)
  have i1: "insertCameraData 4 1 10 ?m = Inr (?m1, [NotifyOne])"
    by (simp add: insertCameraData_def vector_at_def new_manager_4)
  have i2: "insertCameraData 4 5 50 ?m1 = Inr (?m2, [Warn (OutOfOrder 1 5), NotifyOne])"
    by (simp add: insertCameraData_def vector_at_def)
  have ne: "(1::uint32) \<noteq> 5" by simp
  have cong: "unat (1::uint32) mod 4 = unat (5::uint32) mod 4" by simp
  have nz: "(5::uint32) \<noteq> 0" by simp
  have slot: "cameraData ?m ! (unat (0::uint32) mod 4) = (0, 0)"
    by (simp add: new_manager_4)
  from read_exact_match_and_supersede [OF wf i1 i2 ne cong nz,
      where f = 0 and v = 0 and m' = ?m and evs = "[]"] slot
  have "getCameraData 4 0 [] ?m = Inr (Some 0, ?m, [])
      \<and> fst (cameraData ?m2 ! (unat (1::uint32) mod 4)) = 5
      \<and> (\<exists>evs'. getCameraData 4 1 [] ?m2 = Inr (None, ?m2, evs'))"
    by simp
  with wf i1 i2 ne cong nz show ?thesis by blast
qed

text \<open>
  The claim as it was stated fails for \<open>f2 = 0\<close>: at capacity 4, frames 4 and 0 share slot
  0; after \<open>insert(4, 11)\<close> and \<open>insert(0, 22)\<close> on a fresh channel, \<open>get(4)\<close> returns 11.
\<close>

theorem frame_zero_supersedes_nothing_counterexample:
  "insertCameraData 4 4 (11::nat) (newReflexCameraDataManager 4 0)
       = Inr (\<lparr>cameraData = [(4, 11), (0, 0), (0, 0), (0, 0)], lastFrame = 4\<rparr>,
              [Warn (OutOfOrder 0 4), NotifyOne])
   \<and> insertCameraData 4 0 22 \<lparr>cameraData = [(4, 11::nat), (0, 0), (0, 0), (0, 0)], lastFrame = 4\<rparr>
       = Inr (\<lparr>cameraData = [(4, 11), (0, 0), (0, 0), (0, 0)], lastFrame = 4\<rparr>, [])
   \<and> (4::uint32) \<noteq> 0 \<and> unat (4::uint32) mod 4 = unat (0::uint32) mod 4
   \<and> getCameraData 4 4 [] \<lparr>cameraData = [(4, 11::nat), (0, 0), (0, 0), (0, 0)], lastFrame = 4\<rparr>
       = Inr (Some 11, \<lparr>cameraData = [(4, 11), (0, 0), (0, 0), (0, 0)], lastFrame = 4\<rparr>, [])"
  by (simp add: insertCameraData_def vector_at_def new_manager_4 getCameraData.simps)

text \<open>
  Claim C4, amended. Let slot \<open>i\<close> hold frame index \<open>f\<close>. A write for \<open>f'\<close> overwrites the slot
  exactly when \<open>f'\<close> maps to the slot, is not 0 and is not \<open>f\<close>: that is \<open>f + N\<close>, but also every
  other frame index that shares the slot, older or newer. Such a write is always applied;
  it is preceded by an out-of-order warning exactly when \<open>f'\<close> is not the last written frame
  plus one. Every other write leaves the slot as it is. A repeated write for \<open>f\<close> itself
  changes nothing in the channel and is warned about (for \<open>f \<noteq> 0\<close>).
\<close>

theorem slot_overwrite_rule:
  assumes wf: "wellformed N m"
    and i: "i < N"
    and held: "cameraData m ! i = (f, v)"
    and ins: "insertCameraData N f' v' m = Inr (m', evs)"
  shows "(unat f' mod N = i \<and> f' \<noteq> 0 \<and> f' \<noteq> f \<longrightarrow>
            cameraData m' ! i = (f', v') \<and> lastFrame m' = f'
            \<and> evs = (if lastFrame m + 1 \<noteq> f'
                     then [Warn (OutOfOrder (lastFrame m) f')] else []) @ [NotifyOne])
       \<and> (\<not> (unat f' mod N = i \<and> f' \<noteq> 0 \<and> f' \<noteq> f) \<longrightarrow> cameraData m' ! i = (f, v))
       \<and> (unat f' mod N = i \<and> f' = f \<longrightarrow>
            m' = m \<and> evs = (if f = 0 then [] else [Warn (AlreadySet f)]))"
proof -
  have len: "length (cameraData m) = N" using wf by (simp add: wellformed_def)
  show ?thesis
  proof (cases "unat f' mod N = i")
    case True
    with ins held i len show ?thesis
      unfolding insertCameraData_wellformed [OF wf]
      by (auto split: if_splits)
  next
    case False
    with ins held i len show ?thesis
      unfolding insertCameraData_wellformed [OF wf]
      by (auto split: if_splits)
  qed
qed

text \<open>
  The theorem at capacity 4 with slot 1 holding frame 1: a write for frame 5, a repeated
  write for frame 1, and a write for frame 2, which belongs to another slot.
\<close>

theorem slot_overwrite_rule_witness:
  "wellformed 4 \<lparr>cameraData = [(0, 0), (1, 5::nat), (0, 0), (0, 0)], lastFrame = 1\<rparr>
   \<and> (1::nat) < 4
   \<and> cameraData \<lparr>cameraData = [(0, 0), (1, 5::nat), (0, 0), (0, 0)], lastFrame = 1\<rparr> ! 1 = (1, 5)
   \<and> insertCameraData 4 5 8 \<lparr>cameraData = [(0, 0), (1, 5::nat), (0, 0), (0, 0)], lastFrame = 1\<rparr>
       = Inr (\<lparr>cameraData = [(0, 0), (5, 8), (0, 0), (0, 0)], lastFrame = 5\<rparr>,
              [Warn (OutOfOrder 1 5), NotifyOne])
   \<and> cameraData \<lparr>cameraData = [(0, 0), (5, 8::nat), (0, 0), (0, 0)], lastFrame = 5\<rparr> ! 1 = (5, 8)
   \<and> insertCameraData 4 1 8 \<lparr>cameraData = [(0, 0), (1, 5::nat), (0, 0), (0, 0)], lastFrame = 1\<rparr>
       = Inr (\<lparr>cameraData = [(0, 0), (1, 5), (0, 0), (0, 0)], lastFrame = 1\<rparr>,
              [Warn (AlreadySet 1)])
   \<and> insertCameraData 4 2 8 \<lparr>cameraData = [(0, 0), (1, 5::nat), (0, 0), (0, 0)], lastFrame = 1\<rparr>
       = Inr (\<lparr>cameraData = [(0, 0), (1, 5), (2, 8), (0, 0)], lastFrame = 2\<rparr>, [NotifyOne])
   \<and> cameraData \<lparr>cameraData = [(0, 0), (1, 5::nat), (2, 8), (0, 0)], lastFrame = 2\<rparr> ! 1 = (1, 5)"
proof -
  let ?m = "\<lparr>cameraData = [(0, 0), (1, 5::nat), (0, 0), (0, 0)], lastFrame = 1::uint32\<rparr>"
  let ?m5 = "\<lparr>cameraData = [(0, 0), (5, 8::nat), (0, 0), (0, 0)], lastFrame = 5::uint32\<rparr>"
  let ?m2 = "\<lparr>cameraData = [(0, 0), (1, 5::nat), (2, 8), (0, 0)], lastFrame = 2::uint32\<rparr>"
  have wf: "wellformed 4 ?m" by (simp add: wellformed_def)
  have i: "(1::nat) < 4" by simp
  have held: "cameraData ?m ! 1 = (1, 5)" by simp
  have a: "insertCameraData 4 5 8 ?m = Inr (?m5, [Warn (OutOfOrder 1 5), NotifyOne])"
    by (simp add: insertCameraData_def vector_at_def)
  have b: "insertCameraData 4 1 8 ?m = Inr (?m, [Warn (AlreadySet 1)])"
    by (simp add: insertCameraData_def vector_at_def)
  have c: "insertCameraData 4 2 8 ?m = Inr (?m2, [NotifyOne])"
    by (simp add: insertCameraData_def vector_at_def)
  from slot_overwrite_rule [OF wf i held a] have "cameraData ?m5 ! 1 = (5, 8)" by simp
  moreover from slot_overwrite_rule [OF wf i held c] have "cameraData ?m2 ! 1 = (1, 5)" by simp
  moreover note slot_overwrite_rule [OF wf i held b]
  ultimately show ?thesis using wf i held a b c by blast
qed

text \<open>
  The claim as it was stated fails twice at capacity 4. After \<open>insert(1, 5)\<close> on a fresh
  channel slot 1 holds frame 1, and \<open>insert(9, 7)\<close> overwrites it although 9 is not
  \<open>1 + 4\<close>. Then, after \<open>insert(4, 6)\<close>, the stale \<open>insert(5, 8)\<close> replaces the newer frame 9
  in slot 1 and logs nothing, because 5 follows the last written frame 4.
\<close>

theorem slot_overwritten_by_other_frames_counterexample:
  "insertCameraData 4 1 (5::nat) (newReflexCameraDataManager 4 0)
       = Inr (\<lparr>cameraData = [(0, 0), (1, 5), (0, 0), (0, 0)], lastFrame = 1\<rparr>, [NotifyOne])
   \<and> insertCameraData 4 9 7 \<lparr>cameraData = [(0, 0), (1, 5::nat), (0, 0), (0, 0)], lastFrame = 1\<rparr>
       = Inr (\<lparr>cameraData = [(0, 0), (9, 7), (0, 0), (0, 0)], lastFrame = 9\<rparr>,
              [Warn (OutOfOrder 1 9), NotifyOne])
   \<and> (9::uint32) \<noteq> 1 + 4
   \<and> insertCameraData 4 4 6 \<lparr>cameraData = [(0, 0), (9, 7::nat), (0, 0), (0, 0)], lastFrame = 9\<rparr>
       = Inr (\<lparr>cameraData = [(4, 6), (9, 7), (0, 0), (0, 0)], lastFrame = 4\<rparr>,
              [Warn (OutOfOrder 9 4), NotifyOne])
   \<and> insertCameraData 4 5 8 \<lparr>cameraData = [(4, 6), (9, 7::nat), (0, 0), (0, 0)], lastFrame = 4\<rparr>
       = Inr (\<lparr>cameraData = [(4, 6), (5, 8), (0, 0), (0, 0)], lastFrame = 5\<rparr>, [NotifyOne])
   \<and> (5::uint32) \<noteq> 9 + 4"
  by (simp add: insertCameraData_def vector_at_def new_manager_4)

text \<open>
  Claim C5, amended. A duplicate write, \<open>insert(f, v2)\<close> while the slot of \<open>f\<close> holds frame
  index \<open>f\<close> with value \<open>v1\<close>, is warned about (for \<open>f \<noteq> 0\<close>; frame 0 returns before the test)
  and changes nothing: the first write wins, and \<open>get(f)\<close> afterwards returns \<open>v1\<close> at once,
  whatever the other threads do.
\<close>

theorem duplicate_write_is_dropped:
  assumes wf: "wellformed N m"
    and held: "cameraData m ! (unat f mod N) = (f, v1)"
  shows "insertCameraData N f v2 m = Inr (m, if f = 0 then [] else [Warn (AlreadySet f)])
       \<and> getCameraData N f env m = Inr (Some v1, m, [])"
proof -
  from held have "fst (cameraData m ! (unat f mod N)) = f" by simp
  from getCameraData_present [OF wf this, of env] held
  have "getCameraData N f env m = Inr (Some v1, m, [])" by simp
  moreover from held
  have "insertCameraData N f v2 m = Inr (m, if f = 0 then [] else [Warn (AlreadySet f)])"
    unfolding insertCameraData_wellformed [OF wf] by simp
  ultimately show ?thesis by simp
qed

text \<open>The theorem at capacity 4 with slot 1 holding frame 1 and value 10.\<close>

theorem duplicate_write_is_dropped_witness:
  "wellformed 4 \<lparr>cameraData = [(0, 0), (1, 10::nat), (0, 0), (0, 0)], lastFrame = 1\<rparr>
   \<and> cameraData \<lparr>cameraData = [(0, 0), (1, 10::nat), (0, 0), (0, 0)], lastFrame = 1\<rparr>
        ! (unat (1::uint32) mod 4) = (1, 10)
   \<and> insertCameraData 4 1 20 \<lparr>cameraData = [(0, 0), (1, 10::nat), (0, 0), (0, 0)], lastFrame = 1\<rparr>
       = Inr (\<lparr>cameraData = [(0, 0), (1, 10), (0, 0), (0, 0)], lastFrame = 1\<rparr>,
              [Warn (AlreadySet 1)])
   \<and> getCameraData 4 1 [] \<lparr>cameraData = [(0, 0), (1, 10::nat), (0, 0), (0, 0)], lastFrame = 1\<rparr>
       = Inr (Some 10, \<lparr>cameraData = [(0, 0), (1, 10), (0, 0), (0, 0)], lastFrame = 1\<rparr>, [])"
proof -
  let ?m = "\<lparr>cameraData = [(0, 0), (1, 10::nat), (0, 0), (0, 0)], lastFrame = 1::uint32\<rparr>"
  have wf: "wellformed 4 ?m" by (simp add: wellformed_def)
  have held: "cameraData ?m ! (unat (1::uint32) mod 4) = (1, 10)" by simp
  from duplicate_write_is_dropped [OF wf held, of 20 "[]"] wf held show ?thesis by simp
qed

text \<open>
  The claim as it was stated fails: after \<open>insert(1, 10)\<close> on a fresh channel of capacity 4,
  \<open>insert(1, 20)\<close> is warned about and dropped, and \<open>get(1)\<close> returns 10, not 20.
\<close>

theorem duplicate_write_first_wins_counterexample:
  "insertCameraData 4 1 (10::nat) (newReflexCameraDataManager 4 0)
       = Inr (\<lparr>cameraData = [(0, 0), (1, 10), (0, 0), (0, 0)], lastFrame = 1\<rparr>, [NotifyOne])
   \<and> insertCameraData 4 1 20 \<lparr>cameraData = [(0, 0), (1, 10::nat), (0, 0), (0, 0)], lastFrame = 1\<rparr>
       = Inr (\<lparr>cameraData = [(0, 0), (1, 10), (0, 0), (0, 0)], lastFrame = 1\<rparr>,
              [Warn (AlreadySet 1)])
   \<and> getCameraData 4 1 [] \<lparr>cameraData = [(0, 0), (1, 10::nat), (0, 0), (0, 0)], lastFrame = 1\<rparr>
       = Inr (Some 10, \<lparr>cameraData = [(0, 0), (1, 10), (0, 0), (0, 0)], lastFrame = 1\<rparr>, [])
   \<and> (10::nat) \<noteq> 20"
  by (simp add: insertCameraData_def vector_at_def new_manager_4 getCameraData.simps)

text \<open>
  Claim C6. A write for a frame \<open>f > 0\<close> that does not follow the last written frame and
  that the slot does not hold already logs the out-of-order warning and is applied all the
  same: the slot \<open>f mod N\<close> holds \<open>(f, v)\<close>, \<open>f\<close> is the last written frame, the condition
  variable is notified, and \<open>get(f)\<close> afterwards returns \<open>v\<close> at once.
\<close>

theorem out_of_order_write_is_applied:
  assumes wf: "wellformed N m"
    and ooo: "f \<noteq> lastFrame m + 1"
    and pos: "0 < f"
    and fresh: "fst (cameraData m ! (unat f mod N)) \<noteq> f"
    and m': "m' = m\<lparr>cameraData := (cameraData m)[unat f mod N := (f, v)], lastFrame := f\<rparr>"
  shows "insertCameraData N f v m = Inr (m', [Warn (OutOfOrder (lastFrame m) f), NotifyOne])
       \<and> cameraData m' ! (unat f mod N) = (f, v)
       \<and> getCameraData N f env m' = Inr (Some v, m', [])"
proof -
  from pos have nz: "f \<noteq> 0" by auto
  have lt: "unat f mod N < length (cameraData m)" using wf by (simp add: wellformed_def)
  have ins: "insertCameraData N f v m
      = Inr (m', [Warn (OutOfOrder (lastFrame m) f), NotifyOne])"
    unfolding insertCameraData_wellformed [OF wf] using nz fresh ooo m' by auto
  have wf': "wellformed N m'" by (rule insertCameraData_preserves [OF wf ins])
  have slot: "cameraData m' ! (unat f mod N) = (f, v)" using lt m' by simp
  then have "fst (cameraData m' ! (unat f mod N)) = f" by simp
  from getCameraData_present [OF wf' this, of env] slot
  have "getCameraData N f env m' = Inr (Some v, m', [])" by simp
  with ins slot show ?thesis by simp
qed

text \<open>The theorem at capacity 4: frame 3 written first on a fresh channel.\<close>

theorem out_of_order_write_is_applied_witness:
  "wellformed 4 (newReflexCameraDataManager 4 (0::nat))
   \<and> (3::uint32) \<noteq> lastFrame (newReflexCameraDataManager 4 (0::nat)) + 1
   \<and> (0::uint32) < 3
   \<and> fst (cameraData (newReflexCameraDataManager 4 (0::nat)) ! (unat (3::uint32) mod 4)) \<noteq> 3
   \<and> insertCameraData 4 3 30 (newReflexCameraDataManager 4 (0::nat))
       = Inr (\<lparr>cameraData = [(0, 0), (0, 0), (0, 0), (3, 30)], lastFrame = 3\<rparr>,
              [Warn (OutOfOrder 0 3), NotifyOne])
   \<and> getCameraData 4 3 [] \<lparr>cameraData = [(0, 0), (0, 0), (0, 0), (3, 30::nat)], lastFrame = 3\<rparr>
       = Inr (Some 30, \<lparr>cameraData = [(0, 0), (0, 0), (0, 0), (3, 30)], lastFrame = 3\<rparr>, [])"
proof -
  let ?m = "newReflexCameraDataManager 4 (0::nat)"
  let ?m' = "\<lparr>cameraData = [(0, 0), (0, 0), (0, 0), (3, 30::nat)], lastFrame = 3::uint32\<rparr>"
  have wf: "wellformed 4 ?m"
    by (simp add: wellformed_def newReflexCameraDataManager_def)
  have ooo: "(3::uint32) \<noteq> lastFrame ?m + 1" by (simp add: new_manager_4)
  have pos: "(0::uint32) < 3" by simp
  have fresh: "fst (cameraData ?m ! (unat (3::uint32) mod 4)) \<noteq> 3" by (simp add: new_manager_4)
  have m': "?m' = ?m\<lparr>cameraData := (cameraData ?m)[unat (3::uint32) mod 4 := (3, 30)],
                       lastFrame := 3\<rparr>"
    by (simp add: new_manager_4)
  from out_of_order_write_is_applied [OF wf ooo pos fresh m', of "[]"] wf ooo pos fresh
  show ?thesis by (simp add: new_manager_4)
qed

text \<open>
  Claim C7. \<open>insert(0, v)\<close> stores nothing: on every channel it returns with the slots and
  the last written frame as they were, and with no warning and no notification.
\<close>

theorem frame_zero_never_stored: "insertCameraData N 0 v m = Inr (m, [])"
  by (simp add: insertCameraData_def)

text \<open>The theorem on a channel of capacity 4 that holds frames 4 and 1.\<close>

theorem frame_zero_never_stored_witness:
  "insertCameraData 4 0 (9::nat) \<lparr>cameraData = [(4, 6), (1, 5), (0, 0), (0, 0)], lastFrame = 4\<rparr>
     = Inr (\<lparr>cameraData = [(4, 6), (1, 5), (0, 0), (0, 0)], lastFrame = 4\<rparr>, [])"
  by (rule frame_zero_never_stored)

text \<open>
  Claim C8. On a well-formed channel \<open>get(f)\<close> always returns, and never by an exception,
  whatever the other threads do. Every wait it makes has the timeout 0 ms for \<open>f < 5\<close> and
  100 ms otherwise, and all it logs are warnings. When it returns empty it has logged the
  warning that the frame was not readily available; for \<open>f \<ge> 5\<close> the last thing it logged is
  the time-out warning, which the code leaves out when the timeout is 0. With no producer
  running and the frame absent, the call is one warning, one wait with that timeout, the
  time-out warning for \<open>f \<ge> 5\<close>, and the empty result.
\<close>

theorem get_timeout_policy:
  assumes wf: "wellformed N m"
  shows "(\<exists>r m' evs. getCameraData N f env m = Inr (r, m', evs)
            \<and> set evs \<subseteq> (if f < 5 then {Warn (NotReadilyAvailable f), WaitFor 0}
                          else {Warn (NotReadilyAvailable f), WaitFor 100,
                                Warn (TimeOut f 100)})
            \<and> (r = None \<longrightarrow> Warn (NotReadilyAvailable f) \<in> set evs
                  \<and> WaitFor (if f < 5 then 0 else 100) \<in> set evs
                  \<and> (5 \<le> f \<longrightarrow> last evs = Warn (TimeOut f 100))))
       \<and> (fst (cameraData m ! (unat f mod N)) \<noteq> f \<longrightarrow>
            getCameraData N f [] m =
              Inr (None, m,
                   if f < 5 then [Warn (NotReadilyAvailable f), WaitFor 0]
                   else [Warn (NotReadilyAvailable f), WaitFor 100, Warn (TimeOut f 100)]))"
proof -
  from getCameraData_total [OF wf, of f env]
  obtain r m' evs where g: "getCameraData N f env m = Inr (r, m', evs)"
    and post: "get_post N f r m' evs" by blast
  have sub: "set evs \<subseteq> (if f < 5 then {Warn (NotReadilyAvailable f), WaitFor 0}
                          else {Warn (NotReadilyAvailable f), WaitFor 100,
                                Warn (TimeOut f 100)})"
  proof (cases "f < 5")
    case True
    with post show ?thesis
      unfolding get_post_def timeout_ms_def by auto
  next
    case False
    with post show ?thesis
      unfolding get_post_def timeout_ms_def by auto
  qed
  have none: "r = None \<longrightarrow> Warn (NotReadilyAvailable f) \<in> set evs
                  \<and> WaitFor (if f < 5 then 0 else 100) \<in> set evs
                  \<and> (5 \<le> f \<longrightarrow> last evs = Warn (TimeOut f 100))"
    using post unfolding get_post_def timeout_ms_def by (auto simp: not_less [symmetric])
  have quiet: "fst (cameraData m ! (unat f mod N)) \<noteq> f \<longrightarrow>
            getCameraData N f [] m =
              Inr (None, m,
                   if f < 5 then [Warn (NotReadilyAvailable f), WaitFor 0]
                   else [Warn (NotReadilyAvailable f), WaitFor 100, Warn (TimeOut f 100)])"
  proof
    assume "fst (cameraData m ! (unat f mod N)) \<noteq> f"
    from getCameraData_quiet_absent [OF wf this] show "getCameraData N f [] m =
              Inr (None, m,
                   if f < 5 then [Warn (NotReadilyAvailable f), WaitFor 0]
                   else [Warn (NotReadilyAvailable f), WaitFor 100, Warn (TimeOut f 100)])"
      by (simp add: timeout_ms_def)
  qed
  from g sub none quiet show ?thesis by blast
qed

text \<open>The theorem at capacity 4 on a fresh channel, for frame 7 and for frame 3.\<close>

theorem get_timeout_policy_witness:
  "wellformed 4 (newReflexCameraDataManager 4 (0::nat))
   \<and> fst (cameraData (newReflexCameraDataManager 4 (0::nat)) ! (unat (7::uint32) mod 4)) \<noteq> 7
   \<and> getCameraData 4 7 [] (newReflexCameraDataManager 4 (0::nat))
       = Inr (None, newReflexCameraDataManager 4 0,
              [Warn (NotReadilyAvailable 7), WaitFor 100, Warn (TimeOut 7 100)])
   \<and> fst (cameraData (newReflexCameraDataManager 4 (0::nat)) ! (unat (3::uint32) mod 4)) \<noteq> 3
   \<and> getCameraData 4 3 [] (newReflexCameraDataManager 4 (0::nat))
       = Inr (None, newReflexCameraDataManager 4 0, [Warn (NotReadilyAvailable 3), WaitFor 0])"
proof -
  let ?m = "newReflexCameraDataManager 4 (0::nat)"
  have wf: "wellformed 4 ?m"
    by (simp add: wellformed_def newReflexCameraDataManager_def)
  have a7: "fst (cameraData ?m ! (unat (7::uint32) mod 4)) \<noteq> 7" by (simp add: new_manager_4)
  have a3: "fst (cameraData ?m ! (unat (3::uint32) mod 4)) \<noteq> 3" by (simp add: new_manager_4)
  from get_timeout_policy [OF wf, of 7 "[]"] a7
  have g7: "getCameraData 4 7 [] ?m
      = Inr (None, ?m, [Warn (NotReadilyAvailable 7), WaitFor 100, Warn (TimeOut 7 100)])"
    by simp
  from get_timeout_policy [OF wf, of 3 "[]"] a3
  have g3: "getCameraData 4 3 [] ?m
      = Inr (None, ?m, [Warn (NotReadilyAvailable 3), WaitFor 0])"
    by simp
  from wf a7 g7 a3 g3 show ?thesis by blast
qed

text \<open>
  Claim C9. When \<^verbatim>\<open>getCameraData\<close> returns empty, \<^verbatim>\<open>slReflexGetCameraDataInternal\<close> returns
  normally with \<^verbatim>\<open>Result::eErrorInvalidState\<close>, logs one more warning and leaves the
  caller's output structure as it was; \<^verbatim>\<open>slReflexGetPredictedCameraData\<close> does the same on
  the channel of predicted data, after setting \<^verbatim>\<open>predictCamera\<close>.
\<close>

theorem missing_camera_data_is_a_typed_error:
  "(getCameraData N frame env (simCameraData ctx) = Inr (None, m, evs) \<longrightarrow>
       slReflexGetCameraDataInternal N env frame outCameraData ctx
         = Inr (eErrorInvalidState, outCameraData, ctx\<lparr>simCameraData := m\<rparr>,
                evs @ [Warn (CouldNotGetCameraData frame)]))
   \<and> (getCameraData N frame env' (predCameraData ctx) = Inr (None, m', evs') \<longrightarrow>
       slReflexGetPredictedCameraData N env' frame outPredicted ctx
         = Inr (eErrorInvalidState, outPredicted,
                ctx\<lparr>predictCamera := True, predCameraData := m'\<rparr>,
                evs' @ [Warn (CouldNotGetPredictedCameraData frame)]))"
  by (simp add: slReflexGetCameraDataInternal_def slReflexGetPredictedCameraData_def)

text \<open>
  The theorem on a context with two fresh channels of capacity 4, for frame 7 and an
  output structure that holds 99.
\<close>

theorem missing_camera_data_is_a_typed_error_witness:
  "getCameraData 4 7 [] (newReflexCameraDataManager 4 (0::nat))
       = Inr (None, newReflexCameraDataManager 4 0,
              [Warn (NotReadilyAvailable 7), WaitFor 100, Warn (TimeOut 7 100)])
   \<and> slReflexGetCameraDataInternal 4 [] 7 99
         \<lparr>simCameraData = newReflexCameraDataManager 4 (0::nat),
          predCameraData = newReflexCameraDataManager 4 (0::nat), predictCamera = False\<rparr>
       = Inr (eErrorInvalidState, 99,
              \<lparr>simCameraData = newReflexCameraDataManager 4 0,
               predCameraData = newReflexCameraDataManager 4 0, predictCamera = False\<rparr>,
              [Warn (NotReadilyAvailable 7), WaitFor 100, Warn (TimeOut 7 100),
               Warn (CouldNotGetCameraData 7)])
   \<and> slReflexGetPredictedCameraData 4 [] 7 99
         \<lparr>simCameraData = newReflexCameraDataManager 4 (0::nat),
          predCameraData = newReflexCameraDataManager 4 (0::nat), predictCamera = False\<rparr>
       = Inr (eErrorInvalidState, 99,
              \<lparr>simCameraData = newReflexCameraDataManager 4 0,
               predCameraData = newReflexCameraDataManager 4 0, predictCamera = True\<rparr>,
              [Warn (NotReadilyAvailable 7), WaitFor 100, Warn (TimeOut 7 100),
               Warn (CouldNotGetPredictedCameraData 7)])"
proof -
  let ?m = "newReflexCameraDataManager 4 (0::nat)"
  let ?ctx = "\<lparr>simCameraData = ?m, predCameraData = ?m, predictCamera = False\<rparr>"
  let ?evs = "[Warn (NotReadilyAvailable 7), WaitFor 100, Warn (TimeOut 7 100)]"
  have wf: "wellformed 4 ?m"
    by (simp add: wellformed_def newReflexCameraDataManager_def)
  have "fst (cameraData ?m ! (unat (7::uint32) mod 4)) \<noteq> 7" by (simp add: new_manager_4)
  from getCameraData_quiet_absent [OF wf this]
  have g: "getCameraData 4 7 [] ?m = Inr (None, ?m, ?evs)"
    by (simp add: timeout_ms_def)
  from missing_camera_data_is_a_typed_error [of 4 7 "[]" ?ctx ?m ?evs 99 "[]" ?m ?evs 99] g
  show ?thesis by simp
qed

text \<open>
  Claim C10. On a freshly constructed channel every slot holds frame index 0 and the
  default payload, so \<open>get(0)\<close> returns the default payload at once: no warning, no wait,
  whatever the other threads do. And \<open>insert(0, v)\<close> on it stores nothing, so what
  \<open>get(0)\<close> hands out was never produced.
\<close>

theorem fresh_channel_serves_frame_zero:
  assumes "0 < N"
  shows "getCameraData N 0 env (newReflexCameraDataManager N dflt)
           = Inr (Some dflt, newReflexCameraDataManager N dflt, [])
       \<and> insertCameraData N 0 v (newReflexCameraDataManager N dflt)
           = Inr (newReflexCameraDataManager N dflt, [])"
proof -
  have wf: "wellformed N (newReflexCameraDataManager N dflt)"
    by (rule wellformed_new [OF assms])
  have slot: "cameraData (newReflexCameraDataManager N dflt) ! (unat (0::uint32) mod N) = (0, dflt)"
    using assms by (simp add: newReflexCameraDataManager_def)
  then have "fst (cameraData (newReflexCameraDataManager N dflt) ! (unat (0::uint32) mod N)) = 0"
    by simp
  from getCameraData_present [OF wf this, of env] slot
  have "getCameraData N 0 env (newReflexCameraDataManager N dflt)
           = Inr (Some dflt, newReflexCameraDataManager N dflt, [])" by simp
  then show ?thesis by (simp add: insertCameraData_def)
qed

text \<open>The theorem at capacity 4 with default payload 0.\<close>

theorem fresh_channel_serves_frame_zero_witness:
  "(0::nat) < 4
   \<and> getCameraData 4 0 [] (newReflexCameraDataManager 4 (0::nat))
       = Inr (Some 0, newReflexCameraDataManager 4 0, [])
   \<and> insertCameraData 4 0 9 (newReflexCameraDataManager 4 (0::nat))
       = Inr (newReflexCameraDataManager 4 0, [])"
proof -
  have pos: "(0::nat) < 4" by simp
  from fresh_channel_serves_frame_zero [OF pos, of "[]" "0::nat" 9] pos show ?thesis by simp
qed

section \<open>Properties of the hooked entry points\<close>

subsection \<open>Supporting lemmas\<close>

text \<open>Entry points of one shape have the same body.\<close>

lemma vkQueuePresentKHR_eq: "vkQueuePresentKHR = vkCreateSwapchainKHR"
  by (intro ext) (simp add: vkQueuePresentKHR_def vkCreateSwapchainKHR_def)

lemma vkCreateWin32SurfaceKHR_eq: "vkCreateWin32SurfaceKHR = vkCreateSwapchainKHR"
  by (intro ext) (simp add: vkCreateWin32SurfaceKHR_def vkCreateSwapchainKHR_def)

lemma vkGetSwapchainImagesKHR_eq: "vkGetSwapchainImagesKHR = vkDeviceWaitIdle"
  by (intro ext) (simp add: vkGetSwapchainImagesKHR_def vkDeviceWaitIdle_def)

lemma vkAcquireNextImageKHR_eq: "vkAcquireNextImageKHR = vkDeviceWaitIdle"
  by (intro ext) (simp add: vkAcquireNextImageKHR_def vkDeviceWaitIdle_def)

lemma vkAcquireNextImage2KHR_eq: "vkAcquireNextImage2KHR = vkDeviceWaitIdle"
  by (intro ext) (simp add: vkAcquireNextImage2KHR_def vkDeviceWaitIdle_def)

lemma vkDestroySurfaceKHR_eq: "vkDestroySurfaceKHR = vkDestroySwapchainKHR"
  by (intro ext) (simp add: vkDestroySurfaceKHR_def vkDestroySwapchainKHR_def)

lemma full_entry_cases:
  "entry \<in> {vkCreateSwapchainKHR, vkQueuePresentKHR, vkCreateWin32SurfaceKHR}
     \<Longrightarrow> entry = vkCreateSwapchainKHR"
  by (auto simp: vkQueuePresentKHR_eq vkCreateWin32SurfaceKHR_eq)

lemma before_only_entry_cases:
  "entry \<in> {vkDeviceWaitIdle, vkGetSwapchainImagesKHR, vkAcquireNextImageKHR,
             vkAcquireNextImage2KHR}
     \<Longrightarrow> entry = vkDeviceWaitIdle"
  by (auto simp: vkGetSwapchainImagesKHR_eq vkAcquireNextImageKHR_eq vkAcquireNextImage2KHR_eq)

lemma void_entry_cases:
  "entry \<in> {vkDestroySwapchainKHR, vkDestroySurfaceKHR} \<Longrightarrow> entry = vkDestroySwapchainKHR"
  by (auto simp: vkDestroySurfaceKHR_eq)

lemma upt_shift: "[i..<i + Suc n] = i # [Suc i..<Suc i + n]"
  by (subst upt_rec) simp

lemma before_hooks_loop_completes:
  "before_hooks_loop hooks i skip result w tr = Inr (skip', result', w', tr')
     \<Longrightarrow> tr' = tr @ map BeforeHook [i..<i + length hooks]"
proof (induction hooks arbitrary: i skip result w tr)
  case Nil
  then show ?case by simp
next
  case (Cons a hooks)
  obtain hook feature where a: "a = (hook, feature)" by (cases a)
  obtain r s x where h: "hook skip w = (r, s, x)" by (cases "hook skip w")
  from Cons.prems have ok: "r = VK_SUCCESS"
    and rest: "before_hooks_loop hooks (Suc i) s r x (tr @ [BeforeHook i])
                 = Inr (skip', result', w', tr')"
    by (auto simp: a h split: if_splits)
  from Cons.IH [OF rest] show ?case
    by (simp only: length_Cons upt_shift list.map append_assoc append_Cons append_Nil)
qed

lemma before_hooks_loop_returns:
  "before_hooks_loop hooks i skip result w tr = Inl (r, w', tr')
     \<Longrightarrow> r \<noteq> VK_SUCCESS \<and> (\<exists>k<length hooks. tr' = tr @ map BeforeHook [i..<i + Suc k])"
proof (induction hooks arbitrary: i skip result w tr)
  case Nil
  then show ?case by simp
next
  case (Cons a hooks)
  obtain hook feature where a: "a = (hook, feature)" by (cases a)
  obtain r0 s x where h: "hook skip w = (r0, s, x)" by (cases "hook skip w")
  show ?case
  proof (cases "r0 = VK_SUCCESS")
    case True
    with Cons.prems have "before_hooks_loop hooks (Suc i) s r0 x (tr @ [BeforeHook i])
                 = Inl (r, w', tr')"
      by (simp add: a h)
    from Cons.IH [OF this] obtain k where k: "k < length hooks"
      "tr' = (tr @ [BeforeHook i]) @ map BeforeHook [Suc i..<Suc i + Suc k]" and r: "r \<noteq> VK_SUCCESS"
      by blast
    have "tr' = tr @ map BeforeHook [i..<i + Suc (Suc k)]"
      using k(2) by (simp only: upt_shift [of i "Suc k"] list.map append_assoc append_Cons append_Nil)
    with k(1) r show ?thesis by (intro conjI exI [of _ "Suc k"]) simp_all
  next
    case False
    with Cons.prems have "r = r0" "tr' = tr @ [BeforeHook i]"
      by (simp_all add: a h)
    with False show ?thesis by (intro conjI exI [of _ 0]) simp_all
  qed
qed

lemma after_hooks_loop_completes:
  "after_hooks_loop hooks i result w tr = Inr (r, w', tr')
     \<Longrightarrow> tr' = tr @ map AfterHook [i..<i + length hooks] \<and> (result = VK_SUCCESS \<longrightarrow> r = VK_SUCCESS)"
proof (induction hooks arbitrary: i result w tr)
  case Nil
  then show ?case by simp
next
  case (Cons a hooks)
  obtain hook feature where a: "a = (hook, feature)" by (cases a)
  obtain r0 x where h: "hook w = (r0, x)" by (cases "hook w")
  from Cons.prems have ok: "r0 = VK_SUCCESS"
    and rest: "after_hooks_loop hooks (Suc i) r0 x (tr @ [AfterHook i]) = Inr (r, w', tr')"
    by (auto simp: a h split: if_splits)
  from Cons.IH [OF rest] have "tr' = tr @ map AfterHook [i..<i + length (a # hooks)]"
    by (simp only: length_Cons upt_shift list.map append_assoc append_Cons append_Nil)
  moreover from Cons.IH [OF rest] ok have "r = VK_SUCCESS" by simp
  ultimately show ?case by simp
qed

lemma after_hooks_loop_returns:
  "after_hooks_loop hooks i result w tr = Inl (r, w', tr')
     \<Longrightarrow> r \<noteq> VK_SUCCESS \<and> (\<exists>k<length hooks. tr' = tr @ map AfterHook [i..<i + Suc k])"
proof (induction hooks arbitrary: i result w tr)
  case Nil
  then show ?case by simp
next
  case (Cons a hooks)
  obtain hook feature where a: "a = (hook, feature)" by (cases a)
  obtain r0 x where h: "hook w = (r0, x)" by (cases "hook w")
  show ?case
  proof (cases "r0 = VK_SUCCESS")
    case True
    with Cons.prems have "after_hooks_loop hooks (Suc i) r0 x (tr @ [AfterHook i])
                 = Inl (r, w', tr')"
      by (simp add: a h)
    from Cons.IH [OF this] obtain k where k: "k < length hooks"
      "tr' = (tr @ [AfterHook i]) @ map AfterHook [Suc i..<Suc i + Suc k]" and r: "r \<noteq> VK_SUCCESS"
      by blast
    have "tr' = tr @ map AfterHook [i..<i + Suc (Suc k)]"
      using k(2) by (simp only: upt_shift [of i "Suc k"] list.map append_assoc append_Cons append_Nil)
    with k(1) r show ?thesis by (intro conjI exI [of _ "Suc k"]) simp_all
  next
    case False
    with Cons.prems have "r = r0" "tr' = tr @ [AfterHook i]"
      by (simp_all add: a h)
    with False show ?thesis by (intro conjI exI [of _ 0]) simp_all
  qed
qed

text \<open>
  The loops in terms of what each hook is handed and returns: a loop none of whose hooks
  fails runs them all; the loop over the after-hooks returns from inside at the first
  hook that fails, with its code and the world it left.
\<close>

lemma before_input_Cons:
  "before_input sw (a # hooks) (Suc j) = before_input (before_step sw a) hooks j"
  by (simp add: before_input_def)

lemma before_result_Cons:
  "before_result sw (a # hooks) (Suc j) = before_result (before_step sw a) hooks j"
  by (simp add: before_result_def before_input_Cons)

lemma after_input_Cons:
  "after_input w (a # hooks) (Suc j) = after_input (after_step w a) hooks j"
  by (simp add: after_input_def)

lemma after_result_Cons:
  "after_result w (a # hooks) (Suc j) = after_result (after_step w a) hooks j"
  by (simp add: after_result_def after_input_Cons)

lemma void_input_Cons:
  "void_input sw (a # hooks) (Suc j) = void_input (void_step sw a) hooks j"
  by (simp add: void_input_def)

lemma before_hooks_loop_all_succeed:
  "\<forall>j<length hooks. before_result (skip, w) hooks j = VK_SUCCESS \<Longrightarrow>
     before_hooks_loop hooks i skip result w tr =
       Inr (fst (before_input (skip, w) hooks (length hooks)),
            (if hooks = [] then result else VK_SUCCESS),
            snd (before_input (skip, w) hooks (length hooks)),
            tr @ map BeforeHook [i..<i + length hooks])"
proof (induction hooks arbitrary: i skip result w tr)
  case Nil
  then show ?case by (simp add: before_input_def)
next
  case (Cons a hooks)
  obtain hook feature where a: "a = (hook, feature)" by (cases a)
  obtain r s x where h: "hook skip w = (r, s, x)" by (cases "hook skip w")
  have step: "before_step (skip, w) a = (s, x)" by (simp add: before_step_def a h)
  from Cons.prems have "before_result (skip, w) (a # hooks) 0 = VK_SUCCESS" by simp
  then have ok: "r = VK_SUCCESS"
    by (simp add: before_result_def before_input_def a h)
  have rest: "\<forall>j<length hooks. before_result (s, x) hooks j = VK_SUCCESS"
  proof (intro allI impI)
    fix j assume "j < length hooks"
    then have "Suc j < length (a # hooks)" by simp
    with Cons.prems have "before_result (skip, w) (a # hooks) (Suc j) = VK_SUCCESS" by blast
    then show "before_result (s, x) hooks j = VK_SUCCESS"
      by (simp add: before_result_Cons step)
  qed
  have trace: "(tr @ [BeforeHook i]) @ map BeforeHook [Suc i..<Suc i + length hooks]
      = tr @ map BeforeHook [i..<i + length (a # hooks)]"
    by (simp only: length_Cons upt_shift list.map append_assoc append_Cons append_Nil)
  have inp: "before_input (skip, w) (a # hooks) (length (a # hooks))
      = before_input (s, x) hooks (length hooks)"
    by (simp only: length_Cons before_input_Cons step)
  have "before_hooks_loop (a # hooks) i skip result w tr
      = before_hooks_loop hooks (Suc i) s r x (tr @ [BeforeHook i])"
    by (simp add: a h ok)
  also have "\<dots> = Inr (fst (before_input (s, x) hooks (length hooks)),
            (if hooks = [] then r else VK_SUCCESS),
            snd (before_input (s, x) hooks (length hooks)),
            (tr @ [BeforeHook i]) @ map BeforeHook [Suc i..<Suc i + length hooks])"
    by (rule Cons.IH [OF rest])
  finally show ?case
    unfolding trace inp using ok by simp
qed

lemma after_hooks_loop_none_fails:
  "\<forall>j<length hooks. after_result w hooks j = VK_SUCCESS \<Longrightarrow>
     after_hooks_loop hooks i result w tr =
       Inr ((if hooks = [] then result else VK_SUCCESS),
            after_input w hooks (length hooks),
            tr @ map AfterHook [i..<i + length hooks])"
proof (induction hooks arbitrary: i result w tr)
  case Nil
  then show ?case by (simp add: after_input_def)
next
  case (Cons a hooks)
  obtain hook feature where a: "a = (hook, feature)" by (cases a)
  obtain r x where h: "hook w = (r, x)" by (cases "hook w")
  have step: "after_step w a = x" by (simp add: after_step_def a h)
  from Cons.prems have "after_result w (a # hooks) 0 = VK_SUCCESS" by simp
  then have ok: "r = VK_SUCCESS"
    by (simp add: after_result_def after_input_def a h)
  have rest: "\<forall>j<length hooks. after_result x hooks j = VK_SUCCESS"
  proof (intro allI impI)
    fix j assume "j < length hooks"
    then have "Suc j < length (a # hooks)" by simp
    with Cons.prems have "after_result w (a # hooks) (Suc j) = VK_SUCCESS" by blast
    then show "after_result x hooks j = VK_SUCCESS"
      by (simp add: after_result_Cons step)
  qed
  have trace: "(tr @ [AfterHook i]) @ map AfterHook [Suc i..<Suc i + length hooks]
      = tr @ map AfterHook [i..<i + length (a # hooks)]"
    by (simp only: length_Cons upt_shift list.map append_assoc append_Cons append_Nil)
  have inp: "after_input w (a # hooks) (length (a # hooks)) = after_input x hooks (length hooks)"
    by (simp only: length_Cons after_input_Cons step)
  have "after_hooks_loop (a # hooks) i result w tr
      = after_hooks_loop hooks (Suc i) r x (tr @ [AfterHook i])"
    by (simp add: a h ok)
  also have "\<dots> = Inr ((if hooks = [] then r else VK_SUCCESS),
            after_input x hooks (length hooks),
            (tr @ [AfterHook i]) @ map AfterHook [Suc i..<Suc i + length hooks])"
    by (rule Cons.IH [OF rest])
  finally show ?case
    unfolding trace inp using ok by simp
qed

lemma after_hooks_loop_first_failure:
  "j < length hooks \<Longrightarrow> \<forall>i<j. after_result w hooks i = VK_SUCCESS \<Longrightarrow>
   after_result w hooks j \<noteq> VK_SUCCESS \<Longrightarrow>
     after_hooks_loop hooks i0 result w tr =
       Inl (after_result w hooks j, after_input w hooks (Suc j),
            tr @ map AfterHook [i0..<i0 + Suc j])"
proof (induction hooks arbitrary: i0 result w tr j)
  case Nil
  then show ?case by simp
next
  case (Cons a hooks)
  obtain hook feature where a: "a = (hook, feature)" by (cases a)
  obtain r x where h: "hook w = (r, x)" by (cases "hook w")
  have step: "after_step w a = x" by (simp add: after_step_def a h)
  have r0: "after_result w (a # hooks) 0 = r"
    by (simp add: after_result_def after_input_def a h)
  show ?case
  proof (cases j)
    case 0
    with Cons.prems(3) r0 have "r \<noteq> VK_SUCCESS" by simp
    moreover have "after_input w (a # hooks) (Suc 0) = x"
      by (simp add: after_input_def step)
    ultimately show ?thesis
      using 0 r0 by (simp add: a h)
  next
    case (Suc j')
    with Cons.prems(2) have "after_result w (a # hooks) 0 = VK_SUCCESS" by blast
    with r0 have ok: "r = VK_SUCCESS" by simp
    from Cons.prems(1) Suc have lt: "j' < length hooks" by simp
    have before': "\<forall>i<j'. after_result x hooks i = VK_SUCCESS"
    proof (intro allI impI)
      fix i assume "i < j'"
      then have "Suc i < j" using Suc by simp
      with Cons.prems(2) have "after_result w (a # hooks) (Suc i) = VK_SUCCESS" by blast
      then show "after_result x hooks i = VK_SUCCESS" by (simp add: after_result_Cons step)
    qed
    from Cons.prems(3) Suc have fails: "after_result x hooks j' \<noteq> VK_SUCCESS"
      by (simp add: after_result_Cons step)
    have trace: "(tr @ [AfterHook i0]) @ map AfterHook [Suc i0..<Suc i0 + Suc j']
        = tr @ map AfterHook [i0..<i0 + Suc (Suc j')]"
      by (simp only: upt_shift [of i0 "Suc j'"] list.map append_assoc append_Cons append_Nil)
    have "after_hooks_loop (a # hooks) i0 result w tr
        = after_hooks_loop hooks (Suc i0) r x (tr @ [AfterHook i0])"
      by (simp add: a h ok)
    also have "\<dots> = Inl (after_result x hooks j', after_input x hooks (Suc j'),
            (tr @ [AfterHook i0]) @ map AfterHook [Suc i0..<Suc i0 + Suc j'])"
      by (rule Cons.IH [OF lt before' fails])
    finally show ?thesis
      unfolding trace Suc by (simp only: after_result_Cons after_input_Cons step)
  qed
qed

lemma void_before_hooks_loop_run:
  "void_before_hooks_loop hooks i skip w tr =
     (fst (void_input (skip, w) hooks (length hooks)),
      snd (void_input (skip, w) hooks (length hooks)),
      tr @ map BeforeHook [i..<i + length hooks])"
proof (induction hooks arbitrary: i skip w tr)
  case Nil
  then show ?case by (simp add: void_input_def)
next
  case (Cons a hooks)
  obtain hook feature where a: "a = (hook, feature)" by (cases a)
  obtain s x where h: "hook skip w = (s, x)" by (cases "hook skip w")
  have step: "void_step (skip, w) a = (s, x)" by (simp add: void_step_def a h)
  have trace: "(tr @ [BeforeHook i]) @ map BeforeHook [Suc i..<Suc i + length hooks]
      = tr @ map BeforeHook [i..<i + length (a # hooks)]"
    by (simp only: length_Cons upt_shift list.map append_assoc append_Cons append_Nil)
  have inp: "void_input (skip, w) (a # hooks) (length (a # hooks))
      = void_input (s, x) hooks (length hooks)"
    by (simp only: length_Cons void_input_Cons step)
  have "void_before_hooks_loop (a # hooks) i skip w tr
      = void_before_hooks_loop hooks (Suc i) s x (tr @ [BeforeHook i])"
    by (simp add: a h)
  also note Cons.IH
  finally show ?case unfolding trace inp .
qed

text \<open>
  For hook lists of any length: when a before-hook fails, the entry point returns the code
  of that hook and the world it left, and only the before-hooks up to it have run.
\<close>

lemma first_failing_before_hook_ends_the_call:
  assumes full: "entry \<in> {vkCreateSwapchainKHR, vkQueuePresentKHR, vkCreateWin32SurfaceKHR}"
    and before_only: "entryB \<in> {vkDeviceWaitIdle, vkGetSwapchainImagesKHR,
                                 vkAcquireNextImageKHR, vkAcquireNextImage2KHR}"
    and failed: "before_hooks_loop beforeHooks 0 False VK_SUCCESS w [] = Inl (r, w', tr)"
  shows "entry beforeHooks native afterHooks w = (r, w', tr)"
    and "entryB beforeHooks native w = (r, w', tr)"
    and "r \<noteq> VK_SUCCESS"
    and "\<exists>k<length beforeHooks. tr = map BeforeHook [0..<Suc k]"
proof -
  have e: "entry = vkCreateSwapchainKHR" by (rule full_entry_cases [OF full])
  have b: "entryB = vkDeviceWaitIdle" by (rule before_only_entry_cases [OF before_only])
  show "entry beforeHooks native afterHooks w = (r, w', tr)"
    unfolding e vkCreateSwapchainKHR_def failed by simp
  show "entryB beforeHooks native w = (r, w', tr)"
    unfolding b vkDeviceWaitIdle_def failed by simp
  from before_hooks_loop_returns [OF failed]
  show "r \<noteq> VK_SUCCESS" and "\<exists>k<length beforeHooks. tr = map BeforeHook [0..<Suc k]"
    by simp_all
qed

text \<open>
  For hook lists of any length: when no hook fails and \<open>skip\<close> is clear after the
  before-hooks, the before-hooks run in the order of their list, then the driver, then the
  after-hooks in the order of theirs.
\<close>

lemma hooks_run_in_registration_order:
  assumes full: "entry \<in> {vkCreateSwapchainKHR, vkQueuePresentKHR, vkCreateWin32SurfaceKHR}"
    and finished:
      "before_hooks_loop beforeHooks 0 False VK_SUCCESS w [] = Inr (False, result, w1, tr)"
    and real: "native w1 = (rn, w2)"
    and after: "after_hooks_loop afterHooks 0 rn w2 (tr @ [NativeCall]) = Inr (r, w3, tr')"
  shows "entry beforeHooks native afterHooks w =
           (r, w3, map BeforeHook [0..<length beforeHooks] @ [NativeCall]
                   @ map AfterHook [0..<length afterHooks])"
proof -
  have e: "entry = vkCreateSwapchainKHR" by (rule full_entry_cases [OF full])
  from before_hooks_loop_completes [OF finished]
  have tr: "tr = map BeforeHook [0..<length beforeHooks]" by simp
  from after_hooks_loop_completes [OF after]
  have tr': "tr' = (tr @ [NativeCall]) @ map AfterHook [0..<length afterHooks]" by simp
  have "entry beforeHooks native afterHooks w = (r, w3, tr')"
    unfolding e vkCreateSwapchainKHR_def finished
    by (simp add: native_unless_skipped_def real after)
  then show ?thesis by (simp add: tr' tr)
qed

subsection \<open>The claims about the entry points\<close>

text \<open>
  Claim C2, amended. Take an entry point with before-hooks \<open>[h1, h2]\<close> and after-hooks
  \<open>[h3, h4]\<close>, and follow the call: \<open>h1\<close> runs on the initial world with \<open>skip\<close> clear, \<open>h2\<close> on
  what \<open>h1\<close> left, the driver on what \<open>h2\<close> left, \<open>h3\<close> and \<open>h4\<close> after it. When all four hooks
  return \<^verbatim>\<open>VK_SUCCESS\<close> and \<open>skip\<close> is clear after \<open>h2\<close>, the callees run in the order
  \<open>h1, h2, driver, h3, h4\<close>. When \<open>h1\<close> fails, its code is returned and nothing else has run;
  when \<open>h1\<close> succeeds and \<open>h2\<close> fails, the code of \<open>h2\<close> is returned, the driver and the
  after-hooks have not run, and the world is the one \<open>h2\<close> left, with the effects of \<open>h1\<close> in
  it. The entry points that have before-hooks only fail in the same way.
\<close>

theorem hooks_in_order_first_failure_wins:
  assumes full: "entry \<in> {vkCreateSwapchainKHR, vkQueuePresentKHR, vkCreateWin32SurfaceKHR}"
    and before_only: "entryB \<in> {vkDeviceWaitIdle, vkGetSwapchainImagesKHR,
                                 vkAcquireNextImageKHR, vkAcquireNextImage2KHR}"
    and h1: "h1 False w0 = (r1, s1, w1)"
    and h2: "h2 s1 w1 = (r2, s2, w2)"
    and real: "native w2 = (rn, w3)"
    and h3: "h3 w3 = (r3, w4)"
    and h4: "h4 w4 = (r4, w5)"
  shows "(r1 = VK_SUCCESS \<and> r2 = VK_SUCCESS \<and> \<not> s2 \<and> r3 = VK_SUCCESS \<and> r4 = VK_SUCCESS \<longrightarrow>
            entry [(h1, p1), (h2, p2)] native [(h3, p3), (h4, p4)] w0 =
              (r4, w5, [BeforeHook 0, BeforeHook 1, NativeCall, AfterHook 0, AfterHook 1]))
       \<and> (r1 \<noteq> VK_SUCCESS \<longrightarrow>
            entry [(h1, p1), (h2, p2)] native [(h3, p3), (h4, p4)] w0 = (r1, w1, [BeforeHook 0])
            \<and> entryB [(h1, p1), (h2, p2)] native w0 = (r1, w1, [BeforeHook 0]))
       \<and> (r1 = VK_SUCCESS \<and> r2 \<noteq> VK_SUCCESS \<longrightarrow>
            entry [(h1, p1), (h2, p2)] native [(h3, p3), (h4, p4)] w0 =
              (r2, w2, [BeforeHook 0, BeforeHook 1])
            \<and> entryB [(h1, p1), (h2, p2)] native w0 = (r2, w2, [BeforeHook 0, BeforeHook 1]))"
proof -
  have e: "entry = vkCreateSwapchainKHR" by (rule full_entry_cases [OF full])
  have b: "entryB = vkDeviceWaitIdle" by (rule before_only_entry_cases [OF before_only])
  have bl: "before_hooks_loop [(h1, p1), (h2, p2)] 0 False VK_SUCCESS w0 [] =
           (if r1 \<noteq> VK_SUCCESS then Inl (r1, w1, [BeforeHook 0])
            else if r2 \<noteq> VK_SUCCESS then Inl (r2, w2, [BeforeHook 0, BeforeHook 1])
            else Inr (s2, r2, w2, [BeforeHook 0, BeforeHook 1]))"
    using h1 h2 by simp
  show ?thesis
    unfolding e b vkCreateSwapchainKHR_def vkDeviceWaitIdle_def bl
    by (simp add: native_unless_skipped_def real h3 h4)
qed

text \<open>
  The theorem three times on concrete hooks: all succeed and none sets \<open>skip\<close>; the first
  before-hook fails; the second before-hook fails.
\<close>

theorem hooks_in_order_first_failure_wins_witness:
  "vkCreateSwapchainKHR [(hook_keeps_skip, 1), (hook_keeps_skip, 2)] native_ok
       [(after_ok, 1), (after_ok, 2)] 0
     = (VK_SUCCESS, 2120,
        [BeforeHook 0, BeforeHook 1, NativeCall, AfterHook 0, AfterHook 1])
   \<and> vkQueuePresentKHR [(hook_fails, 1), (hook_keeps_skip, 2)] native_ok
       [(after_ok, 1), (after_ok, 2)] 0
     = (- 4, 10, [BeforeHook 0])
   \<and> vkDeviceWaitIdle [(hook_fails, 1), (hook_keeps_skip, 2)] native_ok 0
     = (- 4, 10, [BeforeHook 0])
   \<and> vkCreateWin32SurfaceKHR [(hook_sets_skip, 1), (hook_fails, 2)] native_ok
       [(after_ok, 1), (after_ok, 2)] 0
     = (- 4, 11, [BeforeHook 0, BeforeHook 1])
   \<and> vkAcquireNextImageKHR [(hook_sets_skip, 1), (hook_fails, 2)] native_ok 0
     = (- 4, 11, [BeforeHook 0, BeforeHook 1])"
proof -
  have a: "vkCreateSwapchainKHR [(hook_keeps_skip, 1), (hook_keeps_skip, 2)] native_ok
       [(after_ok, 1), (after_ok, 2)] 0
     = (VK_SUCCESS, 2120,
        [BeforeHook 0, BeforeHook 1, NativeCall, AfterHook 0, AfterHook 1])"
    using hooks_in_order_first_failure_wins
      [where entry = vkCreateSwapchainKHR and entryB = vkDeviceWaitIdle
         and ?h1.0 = hook_keeps_skip and ?w0.0 = 0 and ?r1.0 = VK_SUCCESS and ?s1.0 = False
         and ?w1.0 = 10
         and ?h2.0 = hook_keeps_skip and ?r2.0 = VK_SUCCESS and ?s2.0 = False and ?w2.0 = 20
         and native = native_ok and rn = VK_SUCCESS and ?w3.0 = 120
         and ?h3.0 = after_ok and ?r3.0 = VK_SUCCESS and ?w4.0 = 1120
         and ?h4.0 = after_ok and ?r4.0 = VK_SUCCESS and ?w5.0 = 2120
         and ?p1.0 = 1 and ?p2.0 = 2 and ?p3.0 = 1 and ?p4.0 = 2]
    by (simp add: hook_keeps_skip_def native_ok_def after_ok_def)
  have b: "vkQueuePresentKHR [(hook_fails, 1), (hook_keeps_skip, 2)] native_ok
       [(after_ok, 1), (after_ok, 2)] 0 = (- 4, 10, [BeforeHook 0])
     \<and> vkDeviceWaitIdle [(hook_fails, 1), (hook_keeps_skip, 2)] native_ok 0
       = (- 4, 10, [BeforeHook 0])"
    using hooks_in_order_first_failure_wins
      [where entry = vkQueuePresentKHR and entryB = vkDeviceWaitIdle
         and ?h1.0 = hook_fails and ?w0.0 = 0 and ?r1.0 = "- 4" and ?s1.0 = False
         and ?w1.0 = 10
         and ?h2.0 = hook_keeps_skip and ?r2.0 = VK_SUCCESS and ?s2.0 = False and ?w2.0 = 20
         and native = native_ok and rn = VK_SUCCESS and ?w3.0 = 120
         and ?h3.0 = after_ok and ?r3.0 = VK_SUCCESS and ?w4.0 = 1120
         and ?h4.0 = after_ok and ?r4.0 = VK_SUCCESS and ?w5.0 = 2120
         and ?p1.0 = 1 and ?p2.0 = 2 and ?p3.0 = 1 and ?p4.0 = 2]
    by (simp add: hook_fails_def hook_keeps_skip_def native_ok_def after_ok_def VK_SUCCESS_def)
  have c: "vkCreateWin32SurfaceKHR [(hook_sets_skip, 1), (hook_fails, 2)] native_ok
       [(after_ok, 1), (after_ok, 2)] 0 = (- 4, 11, [BeforeHook 0, BeforeHook 1])
     \<and> vkAcquireNextImageKHR [(hook_sets_skip, 1), (hook_fails, 2)] native_ok 0
       = (- 4, 11, [BeforeHook 0, BeforeHook 1])"
    using hooks_in_order_first_failure_wins
      [where entry = vkCreateWin32SurfaceKHR and entryB = vkAcquireNextImageKHR
         and ?h1.0 = hook_sets_skip and ?w0.0 = 0 and ?r1.0 = VK_SUCCESS and ?s1.0 = True
         and ?w1.0 = 1
         and ?h2.0 = hook_fails and ?r2.0 = "- 4" and ?s2.0 = True and ?w2.0 = 11
         and native = native_ok and rn = VK_SUCCESS and ?w3.0 = 111
         and ?h3.0 = after_ok and ?r3.0 = VK_SUCCESS and ?w4.0 = 1111
         and ?h4.0 = after_ok and ?r4.0 = VK_SUCCESS and ?w5.0 = 2111
         and ?p1.0 = 1 and ?p2.0 = 2 and ?p3.0 = 1 and ?p4.0 = 2]
    by (simp add: hook_sets_skip_def hook_fails_def native_ok_def after_ok_def VK_SUCCESS_def)
  from a b c show ?thesis by blast
qed

text \<open>
  The claim as it was stated fails when a before-hook sets \<open>skip\<close>: all four hooks succeed
  and the driver is not called.
\<close>

theorem all_succeed_with_skip_counterexample:
  "vkCreateSwapchainKHR [(hook_sets_skip, 0), (hook_keeps_skip, 0)] native_ok
       [(after_ok, 0), (after_ok, 0)] 0
     = (VK_SUCCESS, 2011, [BeforeHook 0, BeforeHook 1, AfterHook 0, AfterHook 1])"
  by (simp add: vkCreateSwapchainKHR_def native_unless_skipped_def hook_sets_skip_def
      hook_keeps_skip_def after_ok_def VK_SUCCESS_def)

text \<open>
  Claim C3, amended. Let no before-hook fail (each returns \<^verbatim>\<open>VK_SUCCESS\<close> where it is
  called) and let \<open>skip\<close> be set when the last before-hook has returned. Then the driver is
  not called, at any of the hooked entry points, and the entry points with before-hooks
  only return \<^verbatim>\<open>VK_SUCCESS\<close> and the world the before-hooks left. Where the entry point has
  after-hooks, they run on that world in the order of their list, up to and including the
  first that fails. If none fails all of them have run, and the call returns \<^verbatim>\<open>VK_SUCCESS\<close>
  and the world the last one left. If after-hook \<open>j\<close> is the first that fails, the call
  returns the code of that hook and the world it left, and exactly the after-hooks
  \<open>0, \<dots>, j\<close> have run. The condition is on the value of \<open>skip\<close> after the last before-hook,
  since a later hook may clear what an earlier one set.
\<close>

theorem skip_suppresses_native_call_only:
  assumes full: "entry \<in> {vkCreateSwapchainKHR, vkQueuePresentKHR, vkCreateWin32SurfaceKHR}"
    and before_only: "entryB \<in> {vkDeviceWaitIdle, vkGetSwapchainImagesKHR,
                                 vkAcquireNextImageKHR, vkAcquireNextImage2KHR}"
    and void: "entryV \<in> {vkDestroySwapchainKHR, vkDestroySurfaceKHR}"
    and no_failure: "\<forall>j<length beforeHooks. before_result (False, w) beforeHooks j = VK_SUCCESS"
    and skip_set: "fst (before_input (False, w) beforeHooks (length beforeHooks))"
    and w1: "w1 = snd (before_input (False, w) beforeHooks (length beforeHooks))"
    and void_skip_set: "fst (void_input (False, vw) voidHooks (length voidHooks))"
  shows "((\<forall>j<length afterHooks. after_result w1 afterHooks j = VK_SUCCESS) \<longrightarrow>
            entry beforeHooks native afterHooks w =
              (VK_SUCCESS, after_input w1 afterHooks (length afterHooks),
               map BeforeHook [0..<length beforeHooks]
               @ map AfterHook [0..<length afterHooks]))
       \<and> (\<forall>j<length afterHooks.
            (\<forall>i<j. after_result w1 afterHooks i = VK_SUCCESS)
            \<and> after_result w1 afterHooks j \<noteq> VK_SUCCESS \<longrightarrow>
              entry beforeHooks native afterHooks w =
                (after_result w1 afterHooks j, after_input w1 afterHooks (Suc j),
                 map BeforeHook [0..<length beforeHooks] @ map AfterHook [0..<Suc j]))
       \<and> NativeCall \<notin> set (snd (snd (entry beforeHooks native afterHooks w)))
       \<and> entryB beforeHooks native w = (VK_SUCCESS, w1, map BeforeHook [0..<length beforeHooks])
       \<and> entryV voidHooks voidNative vw =
            (snd (void_input (False, vw) voidHooks (length voidHooks)),
             map BeforeHook [0..<length voidHooks])"
proof -
  have e: "entry = vkCreateSwapchainKHR" by (rule full_entry_cases [OF full])
  have b: "entryB = vkDeviceWaitIdle" by (rule before_only_entry_cases [OF before_only])
  have v: "entryV = vkDestroySwapchainKHR" by (rule void_entry_cases [OF void])
  let ?befores = "map BeforeHook [0..<length beforeHooks]"
  have finished: "before_hooks_loop beforeHooks 0 False VK_SUCCESS w [] =
      Inr (True, VK_SUCCESS, w1, ?befores)"
    using before_hooks_loop_all_succeed [OF no_failure, of 0 VK_SUCCESS "[]"] skip_set w1
    by simp
  have entry_eq: "entry beforeHooks native afterHooks w =
      (case after_hooks_loop afterHooks 0 VK_SUCCESS w1 ?befores of
         Inl ret \<Rightarrow> ret | Inr ret \<Rightarrow> ret)"
    unfolding e vkCreateSwapchainKHR_def finished by (simp add: native_unless_skipped_def)
  have all_run: "(\<forall>j<length afterHooks. after_result w1 afterHooks j = VK_SUCCESS) \<longrightarrow>
            entry beforeHooks native afterHooks w =
              (VK_SUCCESS, after_input w1 afterHooks (length afterHooks),
               ?befores @ map AfterHook [0..<length afterHooks])"
  proof
    assume "\<forall>j<length afterHooks. after_result w1 afterHooks j = VK_SUCCESS"
    from after_hooks_loop_none_fails [OF this, of 0 VK_SUCCESS ?befores]
    show "entry beforeHooks native afterHooks w =
              (VK_SUCCESS, after_input w1 afterHooks (length afterHooks),
               ?befores @ map AfterHook [0..<length afterHooks])"
      unfolding entry_eq by simp
  qed
  have stops: "\<forall>j<length afterHooks.
            (\<forall>i<j. after_result w1 afterHooks i = VK_SUCCESS)
            \<and> after_result w1 afterHooks j \<noteq> VK_SUCCESS \<longrightarrow>
              entry beforeHooks native afterHooks w =
                (after_result w1 afterHooks j, after_input w1 afterHooks (Suc j),
                 ?befores @ map AfterHook [0..<Suc j])"
  proof (intro allI impI)
    fix j
    assume lt: "j < length afterHooks"
      and "(\<forall>i<j. after_result w1 afterHooks i = VK_SUCCESS)
            \<and> after_result w1 afterHooks j \<noteq> VK_SUCCESS"
    then have ok: "\<forall>i<j. after_result w1 afterHooks i = VK_SUCCESS"
      and fails: "after_result w1 afterHooks j \<noteq> VK_SUCCESS" by blast+
    from after_hooks_loop_first_failure [OF lt ok fails, of 0 VK_SUCCESS ?befores]
    show "entry beforeHooks native afterHooks w =
                (after_result w1 afterHooks j, after_input w1 afterHooks (Suc j),
                 ?befores @ map AfterHook [0..<Suc j])"
      unfolding entry_eq by simp
  qed
  have no_native: "NativeCall \<notin> set (snd (snd (entry beforeHooks native afterHooks w)))"
  proof (cases "after_hooks_loop afterHooks 0 VK_SUCCESS w1 ?befores")
    case (Inl ret)
    obtain r w' tr' where ret: "ret = (r, w', tr')" by (cases ret)
    from after_hooks_loop_returns [OF Inl [unfolded ret]]
    obtain k where "tr' = ?befores @ map AfterHook [0..<0 + Suc k]" by blast
    then show ?thesis unfolding entry_eq Inl ret by auto
  next
    case (Inr ret)
    obtain r w' tr' where ret: "ret = (r, w', tr')" by (cases ret)
    from after_hooks_loop_completes [OF Inr [unfolded ret]]
    have "tr' = ?befores @ map AfterHook [0..<0 + length afterHooks]" by simp
    then show ?thesis unfolding entry_eq Inr ret by auto
  qed
  have only_before: "entryB beforeHooks native w = (VK_SUCCESS, w1, ?befores)"
    unfolding b vkDeviceWaitIdle_def finished by (simp add: native_unless_skipped_def)
  have void_entry: "entryV voidHooks voidNative vw =
            (snd (void_input (False, vw) voidHooks (length voidHooks)),
             map BeforeHook [0..<length voidHooks])"
    unfolding v vkDestroySwapchainKHR_def
      void_before_hooks_loop_run [of voidHooks 0 False vw "[]"]
    using void_skip_set by simp
  from all_run stops no_native only_before void_entry show ?thesis by blast
qed

text \<open>
  The theorem on concrete hooks, the first of which sets \<open>skip\<close>: with the first after-hook
  failing, with both succeeding, and with the second failing. The driver's mark (100) is in
  none of the worlds returned.
\<close>

theorem skip_suppresses_native_call_only_witness:
  "before_result (False, 0) [(hook_sets_skip, 1), (hook_keeps_skip, 2)] 0 = VK_SUCCESS
   \<and> before_result (False, 0) [(hook_sets_skip, 1), (hook_keeps_skip, 2)] 1 = VK_SUCCESS
   \<and> before_input (False, 0) [(hook_sets_skip, 1), (hook_keeps_skip, 2)] 2 = (True, 11)
   \<and> void_input (False, 0) [(void_hook_sets_skip, 1)] 1 = (True, 1)
   \<and> after_result 11 [(after_fails, 1), (after_ok, 2)] 0 = - 4
   \<and> vkQueuePresentKHR [(hook_sets_skip, 1), (hook_keeps_skip, 2)] native_ok
         [(after_fails, 1), (after_ok, 2)] 0
       = (- 4, 1011, [BeforeHook 0, BeforeHook 1, AfterHook 0])
   \<and> vkQueuePresentKHR [(hook_sets_skip, 1), (hook_keeps_skip, 2)] native_ok
         [(after_ok, 1), (after_ok, 2)] 0
       = (VK_SUCCESS, 2011, [BeforeHook 0, BeforeHook 1, AfterHook 0, AfterHook 1])
   \<and> vkCreateSwapchainKHR [(hook_sets_skip, 1), (hook_keeps_skip, 2)] native_ok
         [(after_ok, 1), (after_fails, 2)] 0
       = (- 4, 2011, [BeforeHook 0, BeforeHook 1, AfterHook 0, AfterHook 1])
   \<and> vkAcquireNextImageKHR [(hook_sets_skip, 1), (hook_keeps_skip, 2)] native_ok 0
       = (VK_SUCCESS, 11, [BeforeHook 0, BeforeHook 1])
   \<and> vkDestroySurfaceKHR [(void_hook_sets_skip, 1)] void_native_ok 0 = (1, [BeforeHook 0])"
proof -
  let ?bhs = "[(hook_sets_skip, 1), (hook_keeps_skip, 2)] :: (nat before_hook \<times> Feature) list"
  let ?vhs = "[(void_hook_sets_skip, 1)] :: (nat void_before_hook \<times> Feature) list"
  have full: "vkQueuePresentKHR
      \<in> {vkCreateSwapchainKHR, vkQueuePresentKHR, vkCreateWin32SurfaceKHR}" by simp
  have full': "vkCreateSwapchainKHR
      \<in> {vkCreateSwapchainKHR, vkQueuePresentKHR, vkCreateWin32SurfaceKHR}" by simp
  have before_only: "vkAcquireNextImageKHR
      \<in> {vkDeviceWaitIdle, vkGetSwapchainImagesKHR, vkAcquireNextImageKHR,
         vkAcquireNextImage2KHR}" by simp
  have void: "vkDestroySurfaceKHR \<in> {vkDestroySwapchainKHR, vkDestroySurfaceKHR}" by simp
  have b0: "before_result (False, 0) ?bhs 0 = VK_SUCCESS"
    by (simp add: before_result_def before_input_def hook_sets_skip_def)
  have b1: "before_result (False, 0) ?bhs 1 = VK_SUCCESS"
    by (simp add: before_result_def before_input_def before_step_def hook_sets_skip_def
        hook_keeps_skip_def)
  have inp: "before_input (False, 0) ?bhs 2 = (True, 11)"
    by (simp add: before_input_def before_step_def hook_sets_skip_def hook_keeps_skip_def)
  have vinp: "void_input (False, 0) ?vhs 1 = (True, 1)"
    by (simp add: void_input_def void_step_def void_hook_sets_skip_def)
  have no_failure: "\<forall>j<length ?bhs. before_result (False, 0) ?bhs j = VK_SUCCESS"
    using b0 b1 by (simp add: All_less_Suc)
  have skip_set: "fst (before_input (False, 0) ?bhs (length ?bhs))"
    by (simp add: before_input_def before_step_def hook_sets_skip_def hook_keeps_skip_def)
  have w1: "11 = snd (before_input (False, 0) ?bhs (length ?bhs))"
    by (simp add: before_input_def before_step_def hook_sets_skip_def hook_keeps_skip_def)
  have void_skip_set: "fst (void_input (False, 0) ?vhs (length ?vhs))"
    by (simp add: void_input_def void_step_def void_hook_sets_skip_def)
  note inst = skip_suppresses_native_call_only [OF _ before_only void no_failure skip_set w1 void_skip_set,
      where native = native_ok and voidNative = void_native_ok]
  have f0: "after_result 11 [(after_fails, 1), (after_ok, 2)] 0 = - 4"
    by (simp add: after_result_def after_input_def after_fails_def)
  have f1: "after_result 11 [(after_ok, 1), (after_fails, 2)] 0 = VK_SUCCESS"
      "after_result 11 [(after_ok, 1), (after_fails, 2)] (Suc 0) = - 4"
    by (simp_all add: after_result_def after_input_def after_step_def after_ok_def
        after_fails_def)
  have s0: "after_result 11 [(after_ok, 1), (after_ok, 2)] 0 = VK_SUCCESS"
      "after_result 11 [(after_ok, 1), (after_ok, 2)] (Suc 0) = VK_SUCCESS"
    by (simp_all add: after_result_def after_input_def after_step_def after_ok_def)
  have i0: "after_input 11 [(after_fails, 1), (after_ok, 2)] (Suc 0) = 1011"
    by (simp add: after_input_def after_step_def after_fails_def)
  have i1: "after_input 11 [(after_ok, 1), (after_fails, 2)] (Suc (Suc 0)) = 2011"
    by (simp add: after_input_def after_step_def after_ok_def after_fails_def)
  have i2: "after_input 11 [(after_ok, 1), (after_ok, 2)] (Suc (Suc 0)) = 2011"
    by (simp add: after_input_def after_step_def after_ok_def)
  have a: "vkQueuePresentKHR ?bhs native_ok [(after_fails, 1), (after_ok, 2)] 0
       = (- 4, 1011, [BeforeHook 0, BeforeHook 1, AfterHook 0])"
  proof -
    have "vkQueuePresentKHR ?bhs native_ok [(after_fails, 1), (after_ok, 2)] 0
        = (after_result 11 [(after_fails, 1), (after_ok, 2)] 0,
           after_input 11 [(after_fails, 1), (after_ok, 2)] (Suc 0),
           map BeforeHook [0..<length ?bhs] @ map AfterHook [0..<Suc 0])"
      by (rule inst [OF full, THEN conjunct2, THEN conjunct1, rule_format])
         (simp_all add: f0 VK_SUCCESS_def)
    then show ?thesis by (simp add: f0 i0)
  qed
  have b: "vkQueuePresentKHR ?bhs native_ok [(after_ok, 1), (after_ok, 2)] 0
       = (VK_SUCCESS, 2011, [BeforeHook 0, BeforeHook 1, AfterHook 0, AfterHook 1])"
  proof -
    have none: "\<forall>j<length [(after_ok, 1::Feature), (after_ok, 2)].
        after_result 11 [(after_ok, 1), (after_ok, 2)] j = VK_SUCCESS"
      using s0 by (simp add: All_less_Suc)
    from inst [OF full, THEN conjunct1, THEN mp, OF none] i2
    show ?thesis by simp
  qed
  have c: "vkCreateSwapchainKHR ?bhs native_ok [(after_ok, 1), (after_fails, 2)] 0
       = (- 4, 2011, [BeforeHook 0, BeforeHook 1, AfterHook 0, AfterHook 1])"
  proof -
    have "vkCreateSwapchainKHR ?bhs native_ok [(after_ok, 1), (after_fails, 2)] 0
        = (after_result 11 [(after_ok, 1), (after_fails, 2)] (Suc 0),
           after_input 11 [(after_ok, 1), (after_fails, 2)] (Suc (Suc 0)),
           map BeforeHook [0..<length ?bhs] @ map AfterHook [0..<Suc (Suc 0)])"
      by (rule inst [OF full', THEN conjunct2, THEN conjunct1, rule_format])
         (simp_all add: f1 VK_SUCCESS_def)
    then show ?thesis by (simp add: f1 i1)
  qed
  have d: "vkAcquireNextImageKHR ?bhs native_ok 0 = (VK_SUCCESS, 11, [BeforeHook 0, BeforeHook 1])"
    using inst [OF full, of "[]", THEN conjunct2, THEN conjunct2, THEN conjunct2, THEN conjunct1]
    by simp
  have e: "vkDestroySurfaceKHR ?vhs void_native_ok 0 = (1, [BeforeHook 0])"
    using inst [OF full, of "[]", THEN conjunct2, THEN conjunct2, THEN conjunct2, THEN conjunct2]
    by (simp add: void_input_def void_step_def void_hook_sets_skip_def)
  from b0 b1 inp vinp f0 a b c d e show ?thesis by blast
qed

text \<open>
  The claim as it was stated fails in two ways. The first before-hook sets \<open>skip\<close> and no
  before-hook fails, the first after-hook fails: the second after-hook does not run. The
  first before-hook sets \<open>skip\<close> and the second clears it, no hook fails: the driver is
  called.
\<close>

theorem skip_counterexample:
  "vkQueuePresentKHR [(hook_sets_skip, 0), (hook_keeps_skip, 0)] native_ok
       [(after_fails, 0), (after_ok, 0)] 0
     = (- 4, 1011, [BeforeHook 0, BeforeHook 1, AfterHook 0])
   \<and> vkQueuePresentKHR [(hook_sets_skip, 0), (hook_clears_skip, 0)] native_ok
       [(after_ok, 0), (after_ok, 0)] 0
     = (VK_SUCCESS, 2111, [BeforeHook 0, BeforeHook 1, NativeCall, AfterHook 0, AfterHook 1])"
  by (simp add: vkQueuePresentKHR_def native_unless_skipped_def hook_sets_skip_def
      hook_keeps_skip_def hook_clears_skip_def after_ok_def after_fails_def native_ok_def
      VK_SUCCESS_def)

end
